theory Spec2Isabelle
  imports Complex_Main "HOL-Library.Word" "HOL-Library.Multiset"
begin

section \<open>Values of the host language\<close>

text \<open>
  A JavaScript string is a sequence of UTF-16 code units; \<open>length\<close> on the list is the
  \<open>.length\<close> of the string. The literals of \<open>hot-issue-analyzer.ts\<close> are Chinese, so they
  are written here by their code units.
\<close>

type_synonym jsstring = "16 word list"

definition ascii :: "string \<Rightarrow> jsstring" where
  "ascii s = map (\<lambda>c. of_nat (of_char c)) s"

text \<open>
  A JavaScript number: a finite value, one of the two infinities, or NaN. Comparison,
  \<open>Math.max\<close> and \<open>Math.min\<close> on doubles involve no rounding, so a finite double is taken
  as the real number it denotes (\<open>-0\<close> and \<open>0\<close> are the one value \<open>Finite 0\<close>; both are
  falsy).
\<close>

datatype jsnumber = NaN | NegInfinity | Finite real | PosInfinity

fun truthy_number :: "jsnumber \<Rightarrow> bool" where
  "truthy_number NaN = False"
| "truthy_number (Finite r) = (r \<noteq> 0)"
| "truthy_number NegInfinity = True"
| "truthy_number PosInfinity = True"

fun number_less :: "jsnumber \<Rightarrow> jsnumber \<Rightarrow> bool" where
  "number_less NaN _ = False"
| "number_less _ NaN = False"
| "number_less (Finite a) (Finite b) = (a < b)"
| "number_less NegInfinity NegInfinity = False"
| "number_less NegInfinity _ = True"
| "number_less _ NegInfinity = False"
| "number_less PosInfinity _ = False"
| "number_less _ PosInfinity = True"

definition Math_max :: "jsnumber \<Rightarrow> jsnumber \<Rightarrow> jsnumber" where
  "Math_max a b = (if a = NaN \<or> b = NaN then NaN else if number_less a b then b else a)"

definition Math_min :: "jsnumber \<Rightarrow> jsnumber \<Rightarrow> jsnumber" where
  "Math_min a b = (if a = NaN \<or> b = NaN then NaN else if number_less b a then b else a)"

text \<open>
  \<open>x || d\<close>: \<open>x\<close> when it is truthy, else \<open>d\<close>. A field that is absent at run time
  (\<open>undefined\<close> or \<open>null\<close>) is \<open>None\<close>; the empty string, \<open>0\<close> and \<open>NaN\<close> are falsy too.
\<close>

fun or_string :: "jsstring option \<Rightarrow> jsstring \<Rightarrow> jsstring" where
  "or_string None d = d"
| "or_string (Some s) d = (if s = [] then d else s)"

fun or_number :: "jsnumber option \<Rightarrow> jsnumber \<Rightarrow> jsnumber" where
  "or_number None d = d"
| "or_number (Some n) d = (if truthy_number n then n else d)"

fun falsy_string :: "jsstring option \<Rightarrow> bool" where
  "falsy_string None = True"
| "falsy_string (Some s) = (s = [])"

section \<open>Data model\<close>

type_synonym timestamp = int

text \<open>\<open>interface ExistingTag\<close>\<close>

record ExistingTag =
  et_name :: jsstring
  et_description :: jsstring
  et_usageCount :: nat

text \<open>\<open>reasoning?: string | null\<close>\<close>

datatype reasoning = Undefined | Null | Reasoning jsstring

text \<open>\<open>interface AIAnalysisResult\<close>\<close>

record AIAnalysisResult =
  ar_name :: jsstring
  ar_description :: jsstring
  ar_confidence :: jsnumber
  ar_reasoning :: reasoning

text \<open>
  What \<open>structuredModel.invoke\<close> hands back. Its static type is the one inferred from
  \<open>hotIssueAnalysisSchema\<close>, but \<open>analyzeWithAI\<close> defends against fields that are absent
  at run time, so every field may be missing here.
\<close>

record completion =
  c_name :: "jsstring option"
  c_description :: "jsstring option"
  c_confidence :: "jsnumber option"
  c_reasoning :: reasoning

text \<open>\<open>const CONFIG\<close> (the entries that are numbers used by the program logic)\<close>

definition MAX_EXISTING_TAGS :: nat where "MAX_EXISTING_TAGS = 50"
definition MAX_DESCRIPTION_LENGTH :: nat where "MAX_DESCRIPTION_LENGTH = 24"
definition DEFAULT_CONFIDENCE :: jsnumber where "DEFAULT_CONFIDENCE = Finite 0.5"

text \<open>
  \<open>hotIssueAnalysisSchema\<close>: a name that is a string, a description that is a string of at
  most \<open>MAX_DESCRIPTION_LENGTH\<close> code units, a confidence that is a number (not NaN) from
  \<open>0\<close> to \<open>1\<close>, and a reasoning that may be a string, null or absent.
\<close>

definition hotIssueAnalysisSchema :: "completion \<Rightarrow> bool" where
  "hotIssueAnalysisSchema c =
     (c_name c \<noteq> None \<and>
      (case c_description c of None \<Rightarrow> False | Some d \<Rightarrow> length d \<le> MAX_DESCRIPTION_LENGTH) \<and>
      (case c_confidence c of
         Some (Finite r) \<Rightarrow> 0 \<le> r \<and> r \<le> 1
       | _ \<Rightarrow> False))"

text \<open>Rows of \<open>schema.tags\<close> and \<open>schema.ticketsTags\<close> (the columns this module touches).\<close>

record tag =
  tag_id :: nat
  tag_name :: jsstring
  tag_description :: jsstring
  tag_isAiGenerated :: bool

record ticketTag =
  tt_id :: nat
  tt_ticketId :: jsstring
  tt_tagId :: nat
  tt_confidence :: jsnumber
  tt_isAiGenerated :: bool
  tt_createdAt :: timestamp

text \<open>
  The effects the module has on the outside: reads and writes of the storage and the call
  of the completion service. The state carries the two tables and the trace of effects
  performed so far, oldest first.
\<close>

datatype effect = StorageRead | StorageWrite | CompletionCall

record world =
  tags :: "tag list"
  ticketsTags :: "ticketTag list"
  trace :: "effect list"

definition performed :: "effect \<Rightarrow> world \<Rightarrow> world" where
  "performed e w = w\<lparr>trace := trace w @ [e]\<rparr>"

text \<open>\<open>type MMItem\<close>: a block of a multimodal user message.\<close>

datatype MMItem = Text jsstring | Image_url jsstring

text \<open>
  The collaborators of the module: \<open>OPENAI_CONFIG\<close>, the two extractors of \<open>kb/tools.ts\<close>
  (over a document type \<open>'d\<close> left open), the completion service and the storage's clock
  (the default of \<open>createdAt\<close>). The service is asked with the existing tags, from which
  the system prompt is rendered, and the user content; \<open>None\<close> is a call that throws.
\<close>

record 'd env =
  apiKey :: "jsstring option"
  analysisModel :: "jsstring option"
  extractTextWithoutImages :: "'d \<Rightarrow> jsstring"
  extractImageUrls :: "'d \<Rightarrow> jsstring list"
  invoke :: "ExistingTag list \<Rightarrow> MMItem list \<Rightarrow> completion option"
  now :: timestamp

text \<open>The errors thrown: the two configuration errors, a failed insert, a failed call.\<close>

datatype error =
    ApiKeyNotConfigured
  | AnalysisModelNotConfigured
  | CreateTagFailed jsstring
  | CompletionFailed

text \<open>
  \<open>model.withStructuredOutput(hotIssueAnalysisSchema)\<close>: the client that
  \<open>analyzeWithAI\<close> builds from the chat model. It checks the model's answer against the
  schema and throws when the answer does not conform, or when the model's call throws. The
  field \<open>invoke\<close> of an environment stands for \<open>structuredModel.invoke\<close>; with this client
  for the chat model \<open>model\<close> it is \<open>withStructuredOutput hotIssueAnalysisSchema model\<close>.
\<close>

definition withStructuredOutput ::
  "(completion \<Rightarrow> bool) \<Rightarrow> (ExistingTag list \<Rightarrow> MMItem list \<Rightarrow> completion option)
     \<Rightarrow> ExistingTag list \<Rightarrow> MMItem list \<Rightarrow> completion option" where
  "withStructuredOutput schema model existingTags userContent =
     (case model existingTags userContent of
        None \<Rightarrow> None
      | Some result \<Rightarrow> if schema result then Some result else None)"

section \<open>Query operators of the storage\<close>

text \<open>
  The relational operators the queries are built from, over lists of rows in table order.
  The order of groups and of rows with equal sort keys is not fixed by the storage; the
  model takes one such order.
\<close>

definition leftJoin :: "'a list \<Rightarrow> 'b list \<Rightarrow> ('a \<Rightarrow> 'b \<Rightarrow> bool) \<Rightarrow> ('a \<times> 'b option) list" where
  "leftJoin ls rs on =
     concat (map (\<lambda>a. case filter (on a) rs of
                          [] \<Rightarrow> [(a, None)]
                        | m # ms \<Rightarrow> map (\<lambda>b. (a, Some b)) (m # ms)) ls)"

definition innerJoin :: "'a list \<Rightarrow> 'b list \<Rightarrow> ('a \<Rightarrow> 'b \<Rightarrow> bool) \<Rightarrow> ('a \<times> 'b) list" where
  "innerJoin ls rs on = concat (map (\<lambda>a. map (\<lambda>b. (a, b)) (filter (on a) rs)) ls)"

definition groupBy :: "('r \<Rightarrow> 'k) \<Rightarrow> 'r list \<Rightarrow> ('k \<times> 'r list) list" where
  "groupBy key rs = map (\<lambda>k. (k, filter (\<lambda>r. key r = k) rs)) (remdups (map key rs))"

definition orderBy_desc :: "('r \<Rightarrow> nat) \<Rightarrow> 'r list \<Rightarrow> 'r list" where
  "orderBy_desc f rs = rev (sort_key f rs)"

text \<open>\<open>count(column)\<close>: the number of rows of the group where the column is not NULL.\<close>

definition count_column :: "'a option list \<Rightarrow> nat" where
  "count_column col = length (filter (\<lambda>v. v \<noteq> None) col)"

text \<open>
  Arithmetic on doubles (IEEE 754 binary64, round to nearest, ties to even): the result of
  an operation is the double nearest to the exact result. \<open>binary64 x\<close> is that double for a
  real \<open>x\<close>: with \<open>2 ^ e \<le> \<bar>x\<bar> < 2 ^ (e + 1)\<close> the significand is rounded to 53 bits
  (fewer below \<open>2 ^ - 1022\<close>), and a result of \<open>2 ^ 1024\<close> or more is an infinity. It is
  also the number that a decimal literal denotes.
\<close>

function halvings :: "real \<Rightarrow> nat" where
  "halvings x = (if 2 \<le> x then Suc (halvings (x / 2)) else 0)"
  by pat_completeness auto
termination
proof (relation "measure (\<lambda>x. nat \<lceil>x\<rceil>)")
  show "wf (measure (\<lambda>x::real. nat \<lceil>x\<rceil>))" by simp
next
  fix x :: real assume "2 \<le> x"
  then have "x / 2 \<le> x - 1" by simp
  then have "\<lceil>x / 2\<rceil> \<le> \<lceil>x - 1\<rceil>" by (rule ceiling_mono)
  moreover have "0 < \<lceil>x\<rceil>" using \<open>2 \<le> x\<close> by linarith
  ultimately show "(x / 2, x) \<in> measure (\<lambda>x. nat \<lceil>x\<rceil>)"
    by simp
qed

function doublings :: "real \<Rightarrow> nat" where
  "doublings x = (if 0 < x \<and> x < 1 then Suc (doublings (x * 2)) else 0)"
  by pat_completeness auto
termination
proof (relation "measure (\<lambda>x. nat \<lceil>1 / x\<rceil>)")
  show "wf (measure (\<lambda>x::real. nat \<lceil>1 / x\<rceil>))" by simp
next
  fix x :: real assume a: "0 < x \<and> x < 1"
  then have y: "1 < 1 / x" by simp
  have h: "1 / (x * 2) = (1 / x) / 2" by simp
  have "\<lceil>(1 / x) / 2\<rceil> < \<lceil>1 / x\<rceil>"
  proof (cases "2 \<le> 1 / x")
    case True
    then have "(1 / x) / 2 \<le> 1 / x - 1" by simp
    then have "\<lceil>(1 / x) / 2\<rceil> \<le> \<lceil>1 / x - 1\<rceil>" by (rule ceiling_mono)
    then show ?thesis by simp
  next
    case False
    then have "(1 / x) / 2 \<le> 1" by simp
    then have "\<lceil>(1 / x) / 2\<rceil> \<le> 1" by (simp add: ceiling_le_one)
    moreover have "2 \<le> \<lceil>1 / x\<rceil>" using y by linarith
    ultimately show ?thesis by linarith
  qed
  then have "\<lceil>1 / (x * 2)\<rceil> < \<lceil>1 / x\<rceil>"
    by (simp only: h)
  moreover have "0 < \<lceil>1 / x\<rceil>" using y by linarith
  ultimately have "nat \<lceil>1 / (x * 2)\<rceil> < nat \<lceil>1 / x\<rceil>"
    by linarith
  then show "(x * 2, x) \<in> measure (\<lambda>x. nat \<lceil>1 / x\<rceil>)"
    by (simp only: in_measure)
qed

definition exponent :: "real \<Rightarrow> int" where
  "exponent x = (if 1 \<le> x then int (halvings x) else - int (doublings x))"

definition pow2 :: "int \<Rightarrow> real" where
  "pow2 p = (if 0 \<le> p then 2 ^ nat p else 1 / 2 ^ nat (- p))"

definition round_half_even :: "real \<Rightarrow> int" where
  "round_half_even x =
     (let f = \<lfloor>x\<rfloor>; d = x - of_int f
      in if d < 1 / 2 then f else if 1 / 2 < d then f + 1 else if even f then f else f + 1)"

definition binary64 :: "real \<Rightarrow> jsnumber" where
  "binary64 x =
     (if x = 0 then Finite 0
      else let p = max (exponent \<bar>x\<bar> - 52) (- 1074);
               r = of_int (round_half_even (\<bar>x\<bar> / pow2 p)) * pow2 p
           in if 2 ^ 1024 \<le> r then (if 0 < x then PosInfinity else NegInfinity)
              else Finite (if 0 < x then r else - r))"

text \<open>
  \<open>avg(column)\<close> over a double precision column, as the storage computes it: the values
  of the group are added up in row order and the sum is divided by their number, each
  operation rounded to a double; NULL (\<open>None\<close>) on an empty group.
\<close>

fun number_add :: "jsnumber \<Rightarrow> jsnumber \<Rightarrow> jsnumber" where
  "number_add (Finite a) (Finite b) = binary64 (a + b)"
| "number_add NaN _ = NaN"
| "number_add _ NaN = NaN"
| "number_add PosInfinity NegInfinity = NaN"
| "number_add NegInfinity PosInfinity = NaN"
| "number_add PosInfinity _ = PosInfinity"
| "number_add _ PosInfinity = PosInfinity"
| "number_add NegInfinity _ = NegInfinity"
| "number_add _ NegInfinity = NegInfinity"

fun number_div :: "jsnumber \<Rightarrow> nat \<Rightarrow> jsnumber" where
  "number_div (Finite a) n = binary64 (a / real n)"
| "number_div x n = x"

definition avg :: "jsnumber list \<Rightarrow> jsnumber option" where
  "avg col =
     (if col = [] then None
      else Some (number_div (foldl number_add (Finite 0) col) (length col)))"

text \<open>The identifier a serial column gives the next row: one past the largest in use.\<close>

definition next_id :: "nat list \<Rightarrow> nat" where
  "next_id ids = Suc (foldr max ids 0)"

section \<open>The operations of \<open>hot-issue-analyzer.ts\<close>\<close>

definition getExistingTags :: "world \<Rightarrow> ExistingTag list \<times> world" where
  "getExistingTags w =
     (let tagResults =
            take MAX_EXISTING_TAGS
              (orderBy_desc (\<lambda>(tagId, name, description, usageCount). usageCount)
                 (map (\<lambda>((tagId, name, description), rows).
                         (tagId, name, description,
                          count_column (map (\<lambda>(t, l). map_option tt_id l) rows)))
                    (groupBy (\<lambda>(t, l). (tag_id t, tag_name t, tag_description t))
                       (leftJoin (tags w) (ticketsTags w) (\<lambda>t l. tag_id t = tt_tagId l)))))
      in (map (\<lambda>(tagId, name, description, usageCount).
                 \<lparr>et_name = name, et_description = description, et_usageCount = usageCount\<rparr>)
            tagResults,
          performed StorageRead w))"

definition findOrCreateTag :: "world \<Rightarrow> jsstring \<Rightarrow> jsstring \<Rightarrow> (error + nat) \<times> world" where
  "findOrCreateTag w name description =
     (let existing = take 1 (filter (\<lambda>t. tag_name t = name) (tags w));
          w1 = performed StorageRead w
      in case existing of
           t # _ \<Rightarrow> (Inr (tag_id t), w1)
         | [] \<Rightarrow>
             (let row = \<lparr>tag_id = next_id (map tag_id (tags w1)), tag_name = name,
                         tag_description = description, tag_isAiGenerated = True\<rparr>;
                  w2 = performed StorageWrite (w1\<lparr>tags := tags w1 @ [row]\<rparr>);
                  result = [tag_id row]
              in case result of
                   [] \<Rightarrow> (Inl (CreateTagFailed name), w2)
                 | r # _ \<Rightarrow> (Inr r, w2)))"

definition isTicketTagLinked :: "world \<Rightarrow> jsstring \<Rightarrow> nat \<Rightarrow> bool \<times> world" where
  "isTicketTagLinked w ticketId tagId =
     (let existingLink =
            take 1 (filter (\<lambda>l. tt_ticketId l = ticketId \<and> tt_tagId l = tagId) (ticketsTags w))
      in (length existingLink > 0, performed StorageRead w))"

text \<open>
  The insert names no \<open>createdAt\<close>: the storage fills in its clock's value, which is the
  argument \<open>created\<close> here.
\<close>

definition linkTicketToTag :: "world \<Rightarrow> timestamp \<Rightarrow> jsstring \<Rightarrow> nat \<Rightarrow> jsnumber \<Rightarrow> world" where
  "linkTicketToTag w created ticketId tagId confidence =
     performed StorageWrite
       (w\<lparr>ticketsTags := ticketsTags w @
            [\<lparr>tt_id = next_id (map tt_id (ticketsTags w)), tt_ticketId = ticketId,
              tt_tagId = tagId, tt_confidence = confidence, tt_isAiGenerated = True,
              tt_createdAt = created\<rparr>]\<rparr>)"

text \<open>
  The prompt text is \<open>U+6807 U+9898 ": " title "\n" U+63CF U+8FF0 ": " text\<close>; the images
  are pushed one by one behind it.
\<close>

definition buildUserContent :: "'d env \<Rightarrow> jsstring \<Rightarrow> 'd \<Rightarrow> MMItem list" where
  "buildUserContent env title description =
     (let prompt = [0x6807, 0x9898, 0x3A, 0x20] @ title @ [0x0A, 0x63CF, 0x8FF0, 0x3A, 0x20]
                     @ extractTextWithoutImages env description;
          content = [Text prompt];
          imageUrls = extractImageUrls env description
      in fold (\<lambda>url content. content @ [Image_url url]) (take 6 imageUrls) content)"

text \<open>
  The fallback name is \<open>U+5176 U+4ED6 U+95EE U+9898\<close> and the fallback description
  \<open>U+672A U+660E U+786E U+5206 U+7C7B U+7684 U+95EE U+9898\<close>, as in the source. The call
  \<open>structuredModel.invoke\<close> is the environment's \<open>invoke\<close>; what the client built
  by \<open>withStructuredOutput\<close> lets through is stated where a property depends on it.
\<close>

definition fallback_name :: jsstring where
  "fallback_name = [0x5176, 0x4ED6, 0x95EE, 0x9898]"

definition fallback_description :: jsstring where
  "fallback_description = [0x672A, 0x660E, 0x786E, 0x5206, 0x7C7B, 0x7684, 0x95EE, 0x9898]"

definition analyzeWithAI ::
  "'d env \<Rightarrow> world \<Rightarrow> jsstring \<Rightarrow> 'd \<Rightarrow> ExistingTag list \<Rightarrow> (error + AIAnalysisResult) \<times> world" where
  "analyzeWithAI env w title description existingTags =
     (let userContent = buildUserContent env title description;
          w1 = performed CompletionCall w
      in case invoke env existingTags userContent of
           None \<Rightarrow> (Inl CompletionFailed, w1)
         | Some result \<Rightarrow>
             (Inr \<lparr>ar_name = or_string (c_name result) fallback_name,
                   ar_description = or_string (c_description result) fallback_description,
                   ar_confidence =
                     Math_min (Math_max (or_number (c_confidence result) DEFAULT_CONFIDENCE)
                                 (Finite 0)) (Finite 1),
                   ar_reasoning = c_reasoning result\<rparr>,
              w1))"

definition analyzeAndSaveHotIssue ::
  "'d env \<Rightarrow> world \<Rightarrow> jsstring \<Rightarrow> jsstring \<Rightarrow> 'd \<Rightarrow> (error + unit) \<times> world" where
  "analyzeAndSaveHotIssue env w ticketId title description =
     (if falsy_string (apiKey env) then (Inl ApiKeyNotConfigured, w)
      else if falsy_string (analysisModel env) then (Inl AnalysisModelNotConfigured, w)
      else
        (let (existingTags, w1) = getExistingTags w;
             (analysis, w2) = analyzeWithAI env w1 title description existingTags
         in case analysis of
              Inl e \<Rightarrow> (Inl e, w2)
            | Inr analysis \<Rightarrow>
                (let (tagId, w3) = findOrCreateTag w2 (ar_name analysis) (ar_description analysis)
                 in case tagId of
                      Inl e \<Rightarrow> (Inl e, w3)
                    | Inr tagId \<Rightarrow>
                        (let (isLinked, w4) = isTicketTagLinked w3 ticketId tagId
                         in if \<not> isLinked
                            then (Inr (), linkTicketToTag w4 (now env) ticketId tagId
                                            (ar_confidence analysis))
                            else (Inr (), w4)))))"

text \<open>\<open>interface TimeRange\<close> and a row of \<open>tagStats\<close>.\<close>

record TimeRange =
  tr_start :: timestamp
  tr_end :: timestamp

record tagStat =
  st_tag :: jsstring
  st_tagDescription :: jsstring
  st_count :: nat
  st_avgConfidence :: "jsnumber option"

definition getHotIssuesStats :: "world \<Rightarrow> TimeRange \<Rightarrow> tagStat list \<times> world" where
  "getHotIssuesStats w timeRange =
     (let tagStats =
            orderBy_desc st_count
              (map (\<lambda>((tagId, name, description), rows).
                      \<lparr>st_tag = name, st_tagDescription = description,
                        st_count = count_column (map (\<lambda>(t, l). Some (tt_id l)) rows),
                        st_avgConfidence = avg (map (\<lambda>(t, l). tt_confidence l) rows)\<rparr>)
                 (groupBy (\<lambda>(t, l). (tag_id t, tag_name t, tag_description t))
                    (filter (\<lambda>(t, l). tt_createdAt l \<ge> tr_start timeRange
                                       \<and> tt_createdAt l \<le> tr_end timeRange)
                       (innerJoin (tags w) (ticketsTags w) (\<lambda>t l. tag_id t = tt_tagId l)))))
      in (tagStats, performed StorageRead w))"

section \<open>Notions used to state the properties\<close>

text \<open>Both configuration entries are present (truthy).\<close>

definition configured :: "'d env \<Rightarrow> bool" where
  "configured env = (\<not> falsy_string (apiKey env) \<and> \<not> falsy_string (analysisModel env))"

text \<open>What the completion service answers to the call that an analysis of world \<open>w\<close> makes.\<close>

definition answer :: "'d env \<Rightarrow> world \<Rightarrow> jsstring \<Rightarrow> 'd \<Rightarrow> completion option" where
  "answer env w title description =
     invoke env (fst (getExistingTags w)) (buildUserContent env title description)"

text \<open>The link rows of a ticket and tag pair.\<close>

definition links_of :: "world \<Rightarrow> jsstring \<Rightarrow> nat \<Rightarrow> ticketTag list" where
  "links_of w ticketId tagId =
     filter (\<lambda>l. tt_ticketId l = ticketId \<and> tt_tagId l = tagId) (ticketsTags w)"

text \<open>The tag id a name resolves to: the first tag of that name, else the id of a new row.\<close>

definition resolved :: "world \<Rightarrow> jsstring \<Rightarrow> nat" where
  "resolved w name =
     (case filter (\<lambda>t. tag_name t = name) (tags w) of
        t # _ \<Rightarrow> tag_id t
      | [] \<Rightarrow> next_id (map tag_id (tags w)))"

text \<open>The confidence expression of \<open>analyzeWithAI\<close>, as a function of the raw value.\<close>

definition clamped :: "jsnumber option \<Rightarrow> jsnumber" where
  "clamped c = Math_min (Math_max (or_number c DEFAULT_CONFIDENCE) (Finite 0)) (Finite 1)"


text \<open>The usage count of a tag: the number of link rows that reference it.\<close>

definition usage :: "world \<Rightarrow> tag \<Rightarrow> nat" where
  "usage w t = length (filter (\<lambda>l. tt_tagId l = tag_id t) (ticketsTags w))"


subsection \<open>Example inputs\<close>

text \<open>
  A configured environment over documents that are a text with a list of image URLs,
  whose completion service gives the answer \<open>c\<close> whatever it is asked; the same with
  the schema-checking client around a chat model that answers \<open>c\<close>; and the empty
  storage.
\<close>

definition answering :: "completion option \<Rightarrow> timestamp \<Rightarrow> (jsstring \<times> jsstring list) env" where
  "answering c t =
     \<lparr>apiKey = Some (ascii ''sk''), analysisModel = Some (ascii ''m''),
      extractTextWithoutImages = fst, extractImageUrls = snd,
      invoke = (\<lambda>existingTags userContent. c), now = t\<rparr>"

definition checked :: "completion option \<Rightarrow> timestamp \<Rightarrow> (jsstring \<times> jsstring list) env" where
  "checked c t =
     (answering c t)\<lparr>invoke :=
        withStructuredOutput hotIssueAnalysisSchema (\<lambda>existingTags userContent. c)\<rparr>"

definition empty_world :: world where
  "empty_world = \<lparr>tags = [], ticketsTags = [], trace = []\<rparr>"

text \<open>
  Answers of the completion service: a confidence of zero, a description of 32
  characters, one of 24 characters, an empty name and description, a given
  confidence, and an answer without name and description.
\<close>

definition zero_answer :: completion where
  "zero_answer = \<lparr>c_name = Some (ascii ''net''), c_description = Some (ascii ''dns''),
                   c_confidence = Some (Finite 0), c_reasoning = Undefined\<rparr>"

definition long_answer :: completion where
  "long_answer = \<lparr>c_name = Some (ascii ''net''),
                   c_description = Some (ascii ''ingress gateway TLS x509 expired''),
                   c_confidence = Some (Finite 0.8), c_reasoning = Undefined\<rparr>"

definition edge_answer :: completion where
  "edge_answer = \<lparr>c_name = Some (ascii ''net''),
                   c_description = Some (ascii ''ingress TLS x509 expired''),
                   c_confidence = Some (Finite 0.8), c_reasoning = Undefined\<rparr>"

definition empty_name_answer :: completion where
  "empty_name_answer = \<lparr>c_name = Some [], c_description = Some [],
                         c_confidence = Some (Finite 1), c_reasoning = Null\<rparr>"

definition answer_with :: "real \<Rightarrow> completion" where
  "answer_with x = \<lparr>c_name = Some (ascii ''net''), c_description = Some (ascii ''dns''),
                     c_confidence = Some (Finite x), c_reasoning = Undefined\<rparr>"


text \<open>
  Storages: one tag named \<open>net\<close>; 51 tags; three tags with five links, whose
  confidences are the doubles that the decimals denote.
\<close>

definition net_world :: world where
  "net_world = \<lparr>tags = [\<lparr>tag_id = 1, tag_name = ascii ''net'', tag_description = ascii ''old'',
                          tag_isAiGenerated = False\<rparr>],
                 ticketsTags = [], trace = []\<rparr>"

definition many_tags_world :: world where
  "many_tags_world =
     \<lparr>tags = map (\<lambda>i. \<lparr>tag_id = i, tag_name = [of_nat i], tag_description = [],
                        tag_isAiGenerated = True\<rparr>) [1 ..< 52],
      ticketsTags = [\<lparr>tt_id = 1, tt_ticketId = [0x54], tt_tagId = 51, tt_confidence = Finite 0.9,
                      tt_isAiGenerated = True, tt_createdAt = 0\<rparr>],
      trace = []\<rparr>"

definition stats_world :: world where
  "stats_world =
     \<lparr>tags = [\<lparr>tag_id = 2, tag_name = ascii ''B'', tag_description = ascii ''b'',
                tag_isAiGenerated = True\<rparr>,
              \<lparr>tag_id = 1, tag_name = ascii ''A'', tag_description = ascii ''a'',
                tag_isAiGenerated = True\<rparr>,
              \<lparr>tag_id = 3, tag_name = ascii ''C'', tag_description = ascii ''c'',
                tag_isAiGenerated = False\<rparr>],
      ticketsTags =
             [\<lparr>tt_id = 1, tt_ticketId = ascii ''T1'', tt_tagId = 1, tt_confidence = binary64 0.6,
                tt_isAiGenerated = True, tt_createdAt = 10\<rparr>,
              \<lparr>tt_id = 2, tt_ticketId = ascii ''T1'', tt_tagId = 2, tt_confidence = binary64 0.5,
                tt_isAiGenerated = True, tt_createdAt = 12\<rparr>,
              \<lparr>tt_id = 3, tt_ticketId = ascii ''T2'', tt_tagId = 1, tt_confidence = binary64 0.8,
                tt_isAiGenerated = True, tt_createdAt = 15\<rparr>,
              \<lparr>tt_id = 4, tt_ticketId = ascii ''T3'', tt_tagId = 1, tt_confidence = binary64 1.0,
                tt_isAiGenerated = True, tt_createdAt = 20\<rparr>,
              \<lparr>tt_id = 5, tt_ticketId = ascii ''T4'', tt_tagId = 2, tt_confidence = binary64 0.9,
                tt_isAiGenerated = True, tt_createdAt = 21\<rparr>],
      trace = []\<rparr>"

section \<open>The steps of the pipeline, one by one\<close>

declare halvings.simps [simp del] doublings.simps [simp del]

lemma clamped_cases:
  "clamped c =
     (case c of
        None \<Rightarrow> Finite 0.5
      | Some NaN \<Rightarrow> Finite 0.5
      | Some NegInfinity \<Rightarrow> Finite 0
      | Some PosInfinity \<Rightarrow> Finite 1
      | Some (Finite r) \<Rightarrow> if r = 0 then Finite 0.5 else Finite (min (max r 0) 1))"
  by (auto simp: clamped_def Math_min_def Math_max_def DEFAULT_CONFIDENCE_def
      split: option.splits jsnumber.splits)

lemma tables_performed [simp]:
  "tags (performed e w) = tags w"
  "ticketsTags (performed e w) = ticketsTags w"
  "trace (performed e w) = trace w @ [e]"
  by (simp_all add: performed_def)

lemma resolved_performed [simp]: "resolved (performed e w) name = resolved w name"
  by (simp add: resolved_def split: list.splits)

lemma links_of_performed [simp]: "links_of (performed e w) t g = links_of w t g"
  by (simp add: links_of_def)

lemma findOrCreateTag_fst:
  "fst (findOrCreateTag w name description) = Inr (resolved w name)"
  by (simp add: findOrCreateTag_def resolved_def Let_def split: list.splits)

lemma findOrCreateTag_tags:
  "tags (snd (findOrCreateTag w name description)) =
     (if \<exists>t \<in> set (tags w). tag_name t = name then tags w
      else tags w @ [\<lparr>tag_id = next_id (map tag_id (tags w)), tag_name = name,
                      tag_description = description, tag_isAiGenerated = True\<rparr>])"
  by (auto simp: findOrCreateTag_def Let_def filter_empty_conv split: list.splits)

lemma findOrCreateTag_ticketsTags:
  "ticketsTags (snd (findOrCreateTag w name description)) = ticketsTags w"
  by (simp add: findOrCreateTag_def Let_def split: list.splits)

lemma links_of_findOrCreateTag [simp]:
  "links_of (snd (findOrCreateTag w name description)) t g = links_of w t g"
  by (simp add: links_of_def findOrCreateTag_ticketsTags)

lemma getExistingTags_snd: "snd (getExistingTags w) = performed StorageRead w"
  by (simp add: getExistingTags_def Let_def)

lemma isTicketTagLinked_eq:
  "isTicketTagLinked w ticketId tagId =
     (links_of w ticketId tagId \<noteq> [], performed StorageRead w)"
  by (cases "links_of w ticketId tagId")
    (simp_all add: isTicketTagLinked_def links_of_def Let_def)

lemma analyzeWithAI_Some:
  assumes "invoke env existingTags (buildUserContent env title description) = Some c"
  shows "analyzeWithAI env w title description existingTags =
           (Inr \<lparr>ar_name = or_string (c_name c) fallback_name,
                 ar_description = or_string (c_description c) fallback_description,
                 ar_confidence = clamped (c_confidence c),
                 ar_reasoning = c_reasoning c\<rparr>,
            performed CompletionCall w)"
  using assms by (simp add: analyzeWithAI_def Let_def clamped_def)

text \<open>A configured call that the service answers runs through all five steps.\<close>

lemma analyzeAndSaveHotIssue_success:
  assumes "configured env" and "answer env w title description = Some c"
  shows "analyzeAndSaveHotIssue env w ticketId title description =
           (let nm = or_string (c_name c) fallback_name;
                ds = or_string (c_description c) fallback_description;
                w3 = snd (findOrCreateTag (performed CompletionCall (performed StorageRead w)) nm ds);
                w4 = performed StorageRead w3
            in (Inr (),
                if links_of w ticketId (resolved w nm) \<noteq> [] then w4
                else linkTicketToTag w4 (now env) ticketId (resolved w nm)
                       (clamped (c_confidence c))))"
proof -
  have inv: "invoke env (fst (getExistingTags w)) (buildUserContent env title description) = Some c"
    using assms(2) by (simp add: answer_def)
  have cfg: "\<not> falsy_string (apiKey env)" "\<not> falsy_string (analysisModel env)"
    using assms(1) by (simp_all add: configured_def)
  show ?thesis
    unfolding analyzeAndSaveHotIssue_def
    by (simp add: cfg split_beta Let_def getExistingTags_snd analyzeWithAI_Some [OF inv]
        findOrCreateTag_fst isTicketTagLinked_eq)
qed

lemma buildUserContent_fold:
  "fold (\<lambda>url content. content @ [Image_url url]) urls content = content @ map Image_url urls"
  by (induction urls arbitrary: content) simp_all

lemma clamped_zero_iff:
  "clamped c = Finite 0 \<longleftrightarrow> (c = Some NegInfinity \<or> (\<exists>r<0. c = Some (Finite r)))"
  by (auto simp: clamped_cases split: option.splits jsnumber.splits)

lemma analyzeAndSaveHotIssue_links:
  assumes "configured env" and "answer env w title description = Some c"
  shows "ticketsTags (snd (analyzeAndSaveHotIssue env w ticketId title description)) =
           (if links_of w ticketId (resolved w (or_string (c_name c) fallback_name)) \<noteq> []
            then ticketsTags w
            else ticketsTags w @
              [\<lparr>tt_id = next_id (map tt_id (ticketsTags w)), tt_ticketId = ticketId,
                tt_tagId = resolved w (or_string (c_name c) fallback_name),
                tt_confidence = clamped (c_confidence c),
                tt_isAiGenerated = True, tt_createdAt = now env\<rparr>])"
  by (simp add: analyzeAndSaveHotIssue_success [OF assms] Let_def linkTicketToTag_def
      findOrCreateTag_ticketsTags)

lemma analyzeAndSaveHotIssue_tags:
  assumes "configured env" and "answer env w title description = Some c"
  shows "tags (snd (analyzeAndSaveHotIssue env w ticketId title description)) =
           tags (snd (findOrCreateTag w (or_string (c_name c) fallback_name)
                        (or_string (c_description c) fallback_description)))"
  by (simp add: analyzeAndSaveHotIssue_success [OF assms] Let_def linkTicketToTag_def
      findOrCreateTag_tags)

lemma foldr_max_ge: "x \<in> set ids \<Longrightarrow> x \<le> foldr max ids (0::nat)"
  by (induction ids) (auto simp: max_def)

lemma next_id_fresh: "next_id ids \<notin> set ids"
  using foldr_max_ge [of "next_id ids" ids] by (auto simp: next_id_def)

lemma resolved_cong: "tags w = tags w' \<Longrightarrow> resolved w name = resolved w' name"
  by (simp add: resolved_def split: list.splits)

lemma resolved_findOrCreateTag [simp]:
  "resolved (snd (findOrCreateTag w name description)) name = resolved w name"
proof (cases "\<exists>t \<in> set (tags w). tag_name t = name")
  case True
  then have "tags (snd (findOrCreateTag w name description)) = tags w"
    by (simp add: findOrCreateTag_tags)
  then show ?thesis
    by (rule resolved_cong)
next
  case False
  then have "filter (\<lambda>t. tag_name t = name) (tags w) = []"
    by (simp add: filter_empty_conv)
  then show ?thesis
    using False by (simp add: resolved_def findOrCreateTag_tags split: list.splits)
qed

lemma named_findOrCreateTag:
  "\<exists>t \<in> set (tags (snd (findOrCreateTag w name description))). tag_name t = name"
  by (auto simp: findOrCreateTag_tags)

lemma clamped_range: "\<exists>r. clamped c = Finite r \<and> 0 \<le> r \<and> r \<le> 1"
proof -
  define r where "r = (case clamped c of Finite x \<Rightarrow> x | _ \<Rightarrow> 0)"
  have "clamped c = Finite r \<and> 0 \<le> r \<and> r \<le> 1"
    by (auto simp: r_def clamped_cases split: option.splits jsnumber.splits)
  then show ?thesis ..
qed

lemma analyzeAndSaveHotIssue_tags_cases:
  "tags (snd (analyzeAndSaveHotIssue env w ticketId title description)) = tags w
   \<or> (\<exists>name ds. tags (snd (analyzeAndSaveHotIssue env w ticketId title description))
         = tags w @ [\<lparr>tag_id = next_id (map tag_id (tags w)), tag_name = name,
                       tag_description = ds, tag_isAiGenerated = True\<rparr>])"
proof (cases "configured env")
  case False
  then show ?thesis
    by (auto simp: configured_def analyzeAndSaveHotIssue_def)
next
  case True
  show ?thesis
  proof (cases "answer env w title description")
    case None
    then have "invoke env (fst (getExistingTags w)) (buildUserContent env title description) = None"
      by (simp add: answer_def)
    then show ?thesis
      using True
      by (simp add: analyzeAndSaveHotIssue_def configured_def split_beta Let_def
          analyzeWithAI_def getExistingTags_snd)
  next
    case (Some c)
    show ?thesis
      by (simp add: analyzeAndSaveHotIssue_tags [OF True Some] findOrCreateTag_tags)
  qed
qed

lemma analyzeAndSaveHotIssue_links_cases:
  "ticketsTags (snd (analyzeAndSaveHotIssue env w ticketId title description)) = ticketsTags w
   \<or> (\<exists>l. ticketsTags (snd (analyzeAndSaveHotIssue env w ticketId title description))
              = ticketsTags w @ [l]
          \<and> tt_ticketId l = ticketId \<and> links_of w ticketId (tt_tagId l) = [])"
proof (cases "configured env")
  case False
  then show ?thesis
    by (auto simp: configured_def analyzeAndSaveHotIssue_def)
next
  case True
  show ?thesis
  proof (cases "answer env w title description")
    case None
    then have "invoke env (fst (getExistingTags w)) (buildUserContent env title description) = None"
      by (simp add: answer_def)
    then show ?thesis
      using True
      by (simp add: analyzeAndSaveHotIssue_def configured_def split_beta Let_def
          analyzeWithAI_def getExistingTags_snd)
  next
    case (Some c)
    show ?thesis
      by (simp add: analyzeAndSaveHotIssue_links [OF True Some])
  qed
qed

text \<open>A configured call whose completion call throws stops there.\<close>

lemma analyzeAndSaveHotIssue_failed:
  assumes "configured env" and "answer env w title description = None"
  shows "analyzeAndSaveHotIssue env w ticketId title description =
           (Inl CompletionFailed, performed CompletionCall (performed StorageRead w))"
proof -
  have inv: "invoke env (fst (getExistingTags w)) (buildUserContent env title description) = None"
    using assms(2) by (simp add: answer_def)
  have cfg: "\<not> falsy_string (apiKey env)" "\<not> falsy_string (analysisModel env)"
    using assms(1) by (simp_all add: configured_def)
  show ?thesis
    unfolding analyzeAndSaveHotIssue_def
    by (simp add: cfg split_beta Let_def getExistingTags_snd analyzeWithAI_def inv)
qed

text \<open>What the schema-checking client lets through conforms to the schema.\<close>

lemma answer_checked:
  assumes "invoke env = withStructuredOutput hotIssueAnalysisSchema model"
  shows "answer env w title description =
           (case model (fst (getExistingTags w)) (buildUserContent env title description) of
              None \<Rightarrow> None
            | Some c \<Rightarrow> if hotIssueAnalysisSchema c then Some c else None)"
  by (simp add: answer_def assms withStructuredOutput_def)

lemma answer_conforms:
  assumes "invoke env = withStructuredOutput hotIssueAnalysisSchema model"
    and "answer env w title description = Some c"
  shows "hotIssueAnalysisSchema c"
  using assms(2) unfolding answer_checked [OF assms(1)]
  by (auto split: option.splits if_splits)

lemma clamped_conforming:
  assumes "hotIssueAnalysisSchema c"
  shows "clamped (c_confidence c) \<noteq> Finite 0"
  using assms
  by (auto simp: hotIssueAnalysisSchema_def clamped_cases split: option.splits jsnumber.splits)

text \<open>The definitions a run on an example unfolds.\<close>

lemmas run_defs =
  analyzeAndSaveHotIssue_def answering_def empty_world_def getExistingTags_def
  analyzeWithAI_def findOrCreateTag_def isTicketTagLinked_def linkTicketToTag_def performed_def
  Math_min_def Math_max_def DEFAULT_CONFIDENCE_def Let_def leftJoin_def groupBy_def orderBy_desc_def
  ascii_def next_id_def buildUserContent_def fallback_name_def fallback_description_def
  count_column_def MAX_EXISTING_TAGS_def

lemmas query_defs =
  getHotIssuesStats_def getExistingTags_def innerJoin_def leftJoin_def groupBy_def
  orderBy_desc_def count_column_def avg_def Let_def ascii_def MAX_EXISTING_TAGS_def


section \<open>The queries\<close>

lemma orderBy_desc_sorted: "sorted_wrt (\<ge>) (map f (orderBy_desc f rs))"
proof -
  have "sorted (map f (sort_key f rs))"
    by (rule sorted_sort_key)
  then have "sorted_wrt (\<ge>) (rev (map f (sort_key f rs)))"
    by (simp add: sorted_wrt_rev)
  then show ?thesis
    by (simp add: orderBy_desc_def rev_map)
qed

lemma orderBy_desc_set [simp]: "set (orderBy_desc f rs) = set rs"
  by (simp add: orderBy_desc_def)

lemma orderBy_desc_length [simp]: "length (orderBy_desc f rs) = length rs"
  by (simp add: orderBy_desc_def)

lemma remdups_block:
  "ys \<noteq> [] \<Longrightarrow> \<forall>y \<in> set ys. y = a \<Longrightarrow> a \<notin> set zs \<Longrightarrow> remdups (ys @ zs) = a # remdups zs"
proof (induction ys)
  case Nil
  then show ?case by simp
next
  case (Cons y ys)
  have y: "y = a" using Cons.prems(2) by simp
  show ?case
  proof (cases "ys = []")
    case True
    with Cons.prems(3) y show ?thesis by simp
  next
    case False
    then have "a \<in> set ys" using Cons.prems(2)
      by (cases ys) auto
    then have "remdups ((y # ys) @ zs) = remdups (ys @ zs)"
      using y by simp
    also have "\<dots> = a # remdups zs"
      using Cons.IH False Cons.prems(2,3) by simp
    finally show ?thesis .
  qed
qed

lemma groupBy_concat:
  assumes "distinct (map k xs)"
    and "\<And>x r. x \<in> set xs \<Longrightarrow> r \<in> set (f x) \<Longrightarrow> key r = k x"
  shows "groupBy key (concat (map f xs)) = map (\<lambda>x. (k x, f x)) (filter (\<lambda>x. f x \<noteq> []) xs)"
  using assms
proof (induction xs)
  case Nil
  then show ?case by (simp add: groupBy_def)
next
  case (Cons x xs)
  let ?R = "concat (map f xs)"
  have IH: "groupBy key ?R = map (\<lambda>x. (k x, f x)) (filter (\<lambda>x. f x \<noteq> []) xs)"
    using Cons by simp
  have keysR: "set (map key ?R) \<subseteq> k ` set xs"
    using Cons.prems(2) by auto
  have kx: "k x \<notin> k ` set xs"
    using Cons.prems(1) by simp
  then have notin: "k x \<notin> set (map key ?R)"
    using keysR by blast
  show ?case
  proof (cases "f x = []")
    case True
    then show ?thesis using IH by simp
  next
    case False
    have same: "\<forall>y \<in> set (map key (f x)). y = k x"
      using Cons.prems(2) by auto
    have rd: "remdups (map key (f x) @ map key ?R) = k x # remdups (map key ?R)"
      using False same notin by (intro remdups_block) simp_all
    have own: "filter (\<lambda>r. key r = k x) (f x) = f x"
      using Cons.prems(2) by (simp add: filter_id_conv)
    have none: "filter (\<lambda>r. key r = k x) ?R = []"
      unfolding filter_empty_conv
    proof (intro ballI notI)
      fix r assume "r \<in> set ?R" and "key r = k x"
      then have "k x \<in> set (map key ?R)"
        unfolding set_map by (metis imageI)
      with notin show False ..
    qed
    have others: "map (\<lambda>k'. (k', filter (\<lambda>r. key r = k') (f x) @ filter (\<lambda>r. key r = k') ?R))
                    (remdups (map key ?R))
                  = map (\<lambda>k'. (k', filter (\<lambda>r. key r = k') ?R)) (remdups (map key ?R))"
    proof (rule map_cong [OF refl])
      fix k' assume "k' \<in> set (remdups (map key ?R))"
      then have "k' \<in> set (map key ?R)"
        by (simp only: set_remdups)
      with notin have "k' \<noteq> k x"
        by metis
      then have "filter (\<lambda>r. key r = k') (f x) = []"
        using Cons.prems(2) by (auto simp: filter_empty_conv)
      then show "(k', filter (\<lambda>r. key r = k') (f x) @ filter (\<lambda>r. key r = k') ?R)
                 = (k', filter (\<lambda>r. key r = k') ?R)"
        by simp
    qed
    have "groupBy key (concat (map f (x # xs)))
            = (k x, f x) # groupBy key ?R"
      using rd own none others by (simp add: groupBy_def)
    then show ?thesis using IH False by simp
  qed
qed

lemma distinct_keys:
  "distinct (map tag_id ts) \<Longrightarrow>
   distinct (map (\<lambda>t. (tag_id t, tag_name t, tag_description t)) ts)"
  by (induction ts) auto

lemma leftJoin_groups:
  assumes "distinct (map tag_id ts)"
  shows "groupBy (\<lambda>(t, l). (tag_id t, tag_name t, tag_description t))
           (leftJoin ts ls (\<lambda>t l. tag_id t = tt_tagId l))
         = map (\<lambda>t. ((tag_id t, tag_name t, tag_description t),
                       case filter (\<lambda>l. tag_id t = tt_tagId l) ls of
                         [] \<Rightarrow> [(t, None)]
                       | m # ms \<Rightarrow> map (\<lambda>b. (t, Some b)) (m # ms))) ts"
proof -
  let ?f = "\<lambda>t. case filter (\<lambda>l. tag_id t = tt_tagId l) ls of
                   [] \<Rightarrow> [(t, None)]
                 | m # ms \<Rightarrow> map (\<lambda>b. (t, Some b)) (m # ms)"
  have ne: "\<And>t. ?f t \<noteq> []"
    by (simp split: list.splits)
  have key: "\<And>t r. r \<in> set (?f t) \<Longrightarrow>
      (case r of (t, l) \<Rightarrow> (tag_id t, tag_name t, tag_description t))
        = (tag_id t, tag_name t, tag_description t)"
    by (auto split: list.splits)
  have "groupBy (\<lambda>(t, l). (tag_id t, tag_name t, tag_description t)) (concat (map ?f ts))
          = map (\<lambda>t. ((tag_id t, tag_name t, tag_description t), ?f t))
              (filter (\<lambda>t. ?f t \<noteq> []) ts)"
    by (rule groupBy_concat [OF distinct_keys [OF assms]]) (rule key)
  then show ?thesis
    by (simp add: leftJoin_def ne)
qed

lemma leftJoin_count:
  "count_column (map (\<lambda>(t, l). map_option tt_id l)
      (case filter (\<lambda>l. tag_id t = tt_tagId l) ls of
         [] \<Rightarrow> [(t, None)]
       | m # ms \<Rightarrow> map (\<lambda>b. (t, Some b)) (m # ms)))
   = length (filter (\<lambda>l. tt_tagId l = tag_id t) ls)"
proof -
  have eq: "filter (\<lambda>l. tt_tagId l = tag_id t) ls = filter (\<lambda>l. tag_id t = tt_tagId l) ls"
    by (rule filter_cong) auto
  show ?thesis
    unfolding eq
    by (cases "filter (\<lambda>l. tag_id t = tt_tagId l) ls")
      (simp_all add: count_column_def comp_def)
qed

lemma getExistingTags_eq:
  assumes "distinct (map tag_id (tags w))"
  shows "fst (getExistingTags w)
         = map (\<lambda>(tagId, name, description, usageCount).
                  \<lparr>et_name = name, et_description = description, et_usageCount = usageCount\<rparr>)
             (take MAX_EXISTING_TAGS
                (orderBy_desc (\<lambda>(tagId, name, description, usageCount). usageCount)
                   (map (\<lambda>t. (tag_id t, tag_name t, tag_description t, usage w t)) (tags w))))"
  by (simp add: getExistingTags_def Let_def leftJoin_groups [OF assms] comp_def leftJoin_count
      usage_def)

lemma getExistingTags_sorted:
  "sorted_wrt (\<ge>) (map et_usageCount (fst (getExistingTags w)))"
proof -
  define rows where "rows =
    map (\<lambda>((tagId, name, description), rows).
           (tagId, name, description,
            count_column (map (\<lambda>(t, l). map_option tt_id l) rows)))
      (groupBy (\<lambda>(t, l). (tag_id t, tag_name t, tag_description t))
         (leftJoin (tags w) (ticketsTags w) (\<lambda>t l. tag_id t = tt_tagId l)))"
  define cnt :: "nat \<times> jsstring \<times> jsstring \<times> nat \<Rightarrow> nat"
    where "cnt = (\<lambda>(tagId, name, description, usageCount). usageCount)"
  have "map et_usageCount (fst (getExistingTags w))
          = take MAX_EXISTING_TAGS (map cnt (orderBy_desc cnt rows))"
    by (simp add: getExistingTags_def Let_def rows_def cnt_def take_map comp_def split_beta)
  moreover have "sorted_wrt (\<ge>) (take MAX_EXISTING_TAGS (map cnt (orderBy_desc cnt rows)))"
    by (rule sorted_wrt_take [OF orderBy_desc_sorted])
  ultimately show ?thesis by simp
qed

lemma getExistingTags_ordered:
  assumes "distinct (map tag_id (tags w))"
  shows "\<exists>ordered.
           mset ordered
             = mset (map (\<lambda>t. \<lparr>et_name = tag_name t, et_description = tag_description t,
                                et_usageCount =
                                  length (filter (\<lambda>l. tt_tagId l = tag_id t) (ticketsTags w))\<rparr>)
                       (tags w))
           \<and> sorted_wrt (\<ge>) (map et_usageCount ordered)
           \<and> fst (getExistingTags w) = take MAX_EXISTING_TAGS ordered"
proof -
  define cnt :: "nat \<times> jsstring \<times> jsstring \<times> nat \<Rightarrow> nat"
    where "cnt = (\<lambda>(tagId, name, description, usageCount). usageCount)"
  define entry :: "nat \<times> jsstring \<times> jsstring \<times> nat \<Rightarrow> ExistingTag"
    where "entry = (\<lambda>(tagId, name, description, usageCount).
                      \<lparr>et_name = name, et_description = description, et_usageCount = usageCount\<rparr>)"
  define rows where "rows = map (\<lambda>t. (tag_id t, tag_name t, tag_description t, usage w t)) (tags w)"
  define ordered where "ordered = map entry (orderBy_desc cnt rows)"
  have cnt: "et_usageCount \<circ> entry = cnt"
    by (auto simp: cnt_def entry_def fun_eq_iff)
  have "mset ordered = mset (map entry rows)"
    by (simp add: ordered_def orderBy_desc_def)
  also have "map entry rows
      = map (\<lambda>t. \<lparr>et_name = tag_name t, et_description = tag_description t,
                   et_usageCount =
                     length (filter (\<lambda>l. tt_tagId l = tag_id t) (ticketsTags w))\<rparr>) (tags w)"
    by (simp add: rows_def entry_def usage_def)
  finally have m: "mset ordered
      = mset (map (\<lambda>t. \<lparr>et_name = tag_name t, et_description = tag_description t,
                   et_usageCount =
                     length (filter (\<lambda>l. tt_tagId l = tag_id t) (ticketsTags w))\<rparr>) (tags w))" .
  have "map et_usageCount ordered = map cnt (orderBy_desc cnt rows)"
    by (simp add: ordered_def cnt)
  then have s: "sorted_wrt (\<ge>) (map et_usageCount ordered)"
    by (simp add: orderBy_desc_sorted)
  have "fst (getExistingTags w) = take MAX_EXISTING_TAGS ordered"
    by (simp add: getExistingTags_eq [OF assms] ordered_def rows_def cnt_def entry_def take_map)
  with m s show ?thesis by blast
qed



section \<open>Properties\<close>

subsection \<open>The confidence handed to the link step\<close>

text \<open>
  C1. The claim is that every in-range confidence value reaches the link step unchanged.
  The schema admits \<open>0\<close> as a confidence, and for the answer \<open>zero_answer\<close>, which the
  schema accepts, the link is stored with confidence \<open>0.5\<close>: \<open>0\<close> is falsy, so the
  default takes its place before the clamp.
\<close>

theorem C1_zero_confidence_replaced:
  "hotIssueAnalysisSchema zero_answer
   \<and> analyzeAndSaveHotIssue (answering (Some zero_answer) 7) empty_world
        (ascii ''T1'') (ascii ''dns down'') ([], [])
       = (Inr (),
          \<lparr>tags = [\<lparr>tag_id = 1, tag_name = ascii ''net'', tag_description = ascii ''dns'',
                     tag_isAiGenerated = True\<rparr>],
            ticketsTags = [\<lparr>tt_id = 1, tt_ticketId = ascii ''T1'', tt_tagId = 1,
                            tt_confidence = Finite 0.5, tt_isAiGenerated = True,
                            tt_createdAt = 7\<rparr>],
            trace = [StorageRead, CompletionCall, StorageRead, StorageWrite, StorageRead,
                     StorageWrite]\<rparr>)"
  by (simp add: run_defs zero_answer_def hotIssueAnalysisSchema_def MAX_DESCRIPTION_LENGTH_def)

subsection \<open>Idempotence of the link\<close>

text \<open>
  C2. Two calls for the same ticket whose analyses carry the same name both succeed and
  resolve to the same tag id; from a storage where the ticket has at most one link row
  per tag, the pair of the ticket and that tag has exactly one link row afterwards, and
  the second call changes neither table: it inserts nothing and the stored confidence
  stays what the first call left.
\<close>

theorem C2_second_call_no_insert:
  assumes "configured env1" and "answer env1 w0 title1 d1 = Some c1"
    and "configured env2"
    and "answer env2 (snd (analyzeAndSaveHotIssue env1 w0 ticketId title1 d1)) title2 d2 = Some c2"
    and "or_string (c_name c2) fallback_name = or_string (c_name c1) fallback_name"
    and "\<forall>tagId. length (links_of w0 ticketId tagId) \<le> 1"
  defines "w1 \<equiv> snd (analyzeAndSaveHotIssue env1 w0 ticketId title1 d1)"
  defines "w2 \<equiv> snd (analyzeAndSaveHotIssue env2 w1 ticketId title2 d2)"
  shows "fst (analyzeAndSaveHotIssue env1 w0 ticketId title1 d1) = Inr ()
         \<and> fst (analyzeAndSaveHotIssue env2 w1 ticketId title2 d2) = Inr ()
         \<and> (\<exists>tagId.
               fst (findOrCreateTag w0 (or_string (c_name c1) fallback_name)
                      (or_string (c_description c1) fallback_description)) = Inr tagId
               \<and> fst (findOrCreateTag w1 (or_string (c_name c2) fallback_name)
                      (or_string (c_description c2) fallback_description)) = Inr tagId
               \<and> length (links_of w2 ticketId tagId) = 1)
         \<and> ticketsTags w2 = ticketsTags w1
         \<and> tags w2 = tags w1"
proof -
  let ?nm = "or_string (c_name c1) fallback_name"
  let ?g = "resolved w0 ?nm"
  have a2: "answer env2 w1 title2 d2 = Some c2"
    using assms(4) by (simp add: w1_def)
  have t1: "tags w1 = tags (snd (findOrCreateTag w0 ?nm
                                   (or_string (c_description c1) fallback_description)))"
    unfolding w1_def by (rule analyzeAndSaveHotIssue_tags [OF assms(1,2)])
  have r1: "resolved w1 ?nm = ?g"
    using resolved_findOrCreateTag [of w0 ?nm "or_string (c_description c1) fallback_description"]
      resolved_cong [OF t1, of ?nm]
    by simp
  have named: "\<exists>t \<in> set (tags w1). tag_name t = ?nm"
    using named_findOrCreateTag [of w0 ?nm] by (simp add: t1)
  have l1: "length (links_of w1 ticketId ?g) = 1"
  proof (cases "links_of w0 ticketId ?g = []")
    case True
    then show ?thesis
      unfolding w1_def links_of_def
      by (simp add: analyzeAndSaveHotIssue_links [OF assms(1,2)] links_of_def)
  next
    case False
    moreover have "length (links_of w0 ticketId ?g) \<le> 1"
      using assms(6) by blast
    ultimately have "length (links_of w0 ticketId ?g) = 1"
      by (cases "links_of w0 ticketId ?g") simp_all
    with False show ?thesis
      unfolding w1_def links_of_def
      by (simp add: analyzeAndSaveHotIssue_links [OF assms(1,2)] links_of_def)
  qed
  then have ne: "links_of w1 ticketId (resolved w1 (or_string (c_name c2) fallback_name)) \<noteq> []"
    using r1 assms(5) by auto
  have tt2: "ticketsTags w2 = ticketsTags w1"
    unfolding w2_def using ne by (simp add: analyzeAndSaveHotIssue_links [OF assms(3) a2])
  have tg2: "tags w2 = tags w1"
    unfolding w2_def using named assms(5)
    by (simp add: analyzeAndSaveHotIssue_tags [OF assms(3) a2] findOrCreateTag_tags)
  have "links_of w2 ticketId ?g = links_of w1 ticketId ?g"
    by (simp add: links_of_def tt2)
  with l1 have l2: "length (links_of w2 ticketId ?g) = 1"
    by simp
  have ok: "fst (analyzeAndSaveHotIssue env1 w0 ticketId title1 d1) = Inr ()"
    "fst (analyzeAndSaveHotIssue env2 w1 ticketId title2 d2) = Inr ()"
    by (simp_all add: analyzeAndSaveHotIssue_success [OF assms(1,2)]
        analyzeAndSaveHotIssue_success [OF assms(3) a2] Let_def)
  have "fst (findOrCreateTag w0 ?nm (or_string (c_description c1) fallback_description)) = Inr ?g"
    by (rule findOrCreateTag_fst)
  moreover have "fst (findOrCreateTag w1 (or_string (c_name c2) fallback_name)
                        (or_string (c_description c2) fallback_description)) = Inr ?g"
    by (simp add: findOrCreateTag_fst assms(5) r1)
  ultimately show ?thesis
    using ok l2 tt2 tg2 by blast
qed

text \<open>
  A first call that stores confidence \<open>0.8\<close>, a second whose answer would give \<open>0.5\<close>.
\<close>

theorem C2_second_call_no_insert_witness:
  "configured (answering (Some edge_answer) 7)
   \<and> answer (answering (Some edge_answer) 7) empty_world (ascii ''tls'') ([], []) = Some edge_answer
   \<and> configured (answering (Some zero_answer) 9)
   \<and> answer (answering (Some zero_answer) 9)
        (snd (analyzeAndSaveHotIssue (answering (Some edge_answer) 7) empty_world
                (ascii ''T1'') (ascii ''tls'') ([], [])))
        (ascii ''dns'') ([], []) = Some zero_answer
   \<and> or_string (c_name zero_answer) fallback_name
       = or_string (c_name edge_answer) fallback_name
   \<and> (\<forall>tagId. length (links_of empty_world (ascii ''T1'') tagId) \<le> 1)
   \<and> (\<exists>tagId. length (links_of
        (snd (analyzeAndSaveHotIssue (answering (Some zero_answer) 9)
           (snd (analyzeAndSaveHotIssue (answering (Some edge_answer) 7) empty_world
                   (ascii ''T1'') (ascii ''tls'') ([], [])))
           (ascii ''T1'') (ascii ''dns'') ([], [])))
        (ascii ''T1'') tagId) = 1)
   \<and> ticketsTags
        (snd (analyzeAndSaveHotIssue (answering (Some zero_answer) 9)
           (snd (analyzeAndSaveHotIssue (answering (Some edge_answer) 7) empty_world
                   (ascii ''T1'') (ascii ''tls'') ([], [])))
           (ascii ''T1'') (ascii ''dns'') ([], [])))
       = [\<lparr>tt_id = 1, tt_ticketId = ascii ''T1'', tt_tagId = 1, tt_confidence = Finite 0.8,
            tt_isAiGenerated = True, tt_createdAt = 7\<rparr>]"
proof -
  have a: "configured (answering (Some edge_answer) 7)"
    by (simp add: configured_def answering_def ascii_def)
  have b: "answer (answering (Some edge_answer) 7) empty_world (ascii ''tls'') ([], [])
             = Some edge_answer"
    by (simp add: answer_def answering_def)
  have c: "configured (answering (Some zero_answer) 9)"
    by (simp add: configured_def answering_def ascii_def)
  have d: "answer (answering (Some zero_answer) 9)
        (snd (analyzeAndSaveHotIssue (answering (Some edge_answer) 7) empty_world
                (ascii ''T1'') (ascii ''tls'') ([], [])))
        (ascii ''dns'') ([], []) = Some zero_answer"
    by (simp add: answer_def answering_def)
  have e: "or_string (c_name zero_answer) fallback_name
             = or_string (c_name edge_answer) fallback_name"
    by (simp add: zero_answer_def edge_answer_def)
  have f: "\<forall>tagId. length (links_of empty_world (ascii ''T1'') tagId) \<le> 1"
    by (simp add: links_of_def empty_world_def)
  have g: "ticketsTags
        (snd (analyzeAndSaveHotIssue (answering (Some zero_answer) 9)
           (snd (analyzeAndSaveHotIssue (answering (Some edge_answer) 7) empty_world
                   (ascii ''T1'') (ascii ''tls'') ([], [])))
           (ascii ''T1'') (ascii ''dns'') ([], [])))
       = [\<lparr>tt_id = 1, tt_ticketId = ascii ''T1'', tt_tagId = 1, tt_confidence = Finite 0.8,
            tt_isAiGenerated = True, tt_createdAt = 7\<rparr>]"
    by (simp add: run_defs edge_answer_def zero_answer_def)
  from C2_second_call_no_insert [OF a b c d e f] a b c d e f g show ?thesis
    by blast
qed

subsection \<open>Resolving a tag\<close>

text \<open>
  C3. When a tag of the name is stored, \<open>findOrCreateTag\<close> answers the id of such a tag and
  leaves the tag table, so also the stored description, as it is. When none is stored it
  appends one tag with a fresh id, the given name and description and \<open>isAiGenerated\<close>
  set, and answers that id. A second call with the same name and any other description
  answers the same id and changes no tag; after a first call that created the tag, the
  description stored under the name is the first call's.
\<close>

theorem C3_findOrCreateTag:
  "((\<exists>t \<in> set (tags w). tag_name t = name) \<longrightarrow>
      (\<exists>t \<in> set (tags w). tag_name t = name
          \<and> fst (findOrCreateTag w name description) = Inr (tag_id t))
      \<and> tags (snd (findOrCreateTag w name description)) = tags w)
   \<and> ((\<forall>t \<in> set (tags w). tag_name t \<noteq> name) \<longrightarrow>
      fst (findOrCreateTag w name description) = Inr (next_id (map tag_id (tags w)))
      \<and> next_id (map tag_id (tags w)) \<notin> set (map tag_id (tags w))
      \<and> tags (snd (findOrCreateTag w name description))
          = tags w @ [\<lparr>tag_id = next_id (map tag_id (tags w)), tag_name = name,
                        tag_description = description, tag_isAiGenerated = True\<rparr>])
   \<and> fst (findOrCreateTag (snd (findOrCreateTag w name description)) name description')
       = fst (findOrCreateTag w name description)
   \<and> tags (snd (findOrCreateTag (snd (findOrCreateTag w name description)) name description'))
       = tags (snd (findOrCreateTag w name description))
   \<and> ((\<forall>t \<in> set (tags w). tag_name t \<noteq> name) \<longrightarrow>
      (\<forall>t \<in> set (tags (snd (findOrCreateTag (snd (findOrCreateTag w name description))
                                 name description'))).
          tag_name t = name \<longrightarrow> tag_description t = description))"
proof -
  have present: "(\<exists>t \<in> set (tags w). tag_name t = name
          \<and> fst (findOrCreateTag w name description) = Inr (tag_id t))"
    if "\<exists>t \<in> set (tags w). tag_name t = name"
  proof -
    from that obtain t ts where f: "filter (\<lambda>t. tag_name t = name) (tags w) = t # ts"
      by (cases "filter (\<lambda>t. tag_name t = name) (tags w)") (auto simp: filter_empty_conv)
    then have "t \<in> set (filter (\<lambda>t. tag_name t = name) (tags w))"
      by simp
    then have "t \<in> set (tags w)" "tag_name t = name"
      by simp_all
    moreover have "fst (findOrCreateTag w name description) = Inr (tag_id t)"
      by (simp add: findOrCreateTag_fst resolved_def f)
    ultimately show ?thesis by blast
  qed
  have absent: "fst (findOrCreateTag w name description) = Inr (next_id (map tag_id (tags w)))"
    if "\<forall>t \<in> set (tags w). tag_name t \<noteq> name"
  proof -
    from that have "filter (\<lambda>t. tag_name t = name) (tags w) = []"
      by (simp add: filter_empty_conv)
    then show ?thesis
      by (simp add: findOrCreateTag_fst resolved_def)
  qed
  have again: "tags (snd (findOrCreateTag (snd (findOrCreateTag w name description)) name description'))
       = tags (snd (findOrCreateTag w name description))"
    using named_findOrCreateTag [of w name description]
    by (subst findOrCreateTag_tags) simp
  show ?thesis
    using present absent again next_id_fresh [of "map tag_id (tags w)"]
    by (auto simp: findOrCreateTag_fst findOrCreateTag_tags)
qed

theorem C3_findOrCreateTag_witness:
  "(\<exists>t \<in> set (tags net_world). tag_name t = ascii ''net'')
   \<and> fst (findOrCreateTag net_world (ascii ''net'') (ascii ''new'')) = Inr 1
   \<and> tags (snd (findOrCreateTag net_world (ascii ''net'') (ascii ''new''))) = tags net_world
   \<and> \<not> (\<exists>t \<in> set (tags empty_world). tag_name t = ascii ''net'')
   \<and> fst (findOrCreateTag empty_world (ascii ''net'') (ascii ''first'')) = Inr 1
   \<and> fst (findOrCreateTag (snd (findOrCreateTag empty_world (ascii ''net'') (ascii ''first'')))
            (ascii ''net'') (ascii ''second'')) = Inr 1
   \<and> tags (snd (findOrCreateTag (snd (findOrCreateTag empty_world (ascii ''net'') (ascii ''first'')))
            (ascii ''net'') (ascii ''second'')))
       = [\<lparr>tag_id = 1, tag_name = ascii ''net'', tag_description = ascii ''first'',
           tag_isAiGenerated = True\<rparr>]"
  using C3_findOrCreateTag [of net_world "ascii ''net''" "ascii ''new''" "ascii ''new''"]
    C3_findOrCreateTag [of empty_world "ascii ''net''" "ascii ''first''" "ascii ''second''"]
  by (simp add: net_world_def empty_world_def next_id_def)

subsection \<open>Missing configuration\<close>

text \<open>
  C4. When the credential or the model identifier is absent (or empty), the call fails
  with the configuration error of the first missing entry and the world is the one it was
  given: no row is written and no effect is on the trace, so neither the storage nor the
  completion service has been reached. The check is the orchestrator's: the analysis
  client itself calls the service whatever the configuration.
\<close>

theorem C4_missing_configuration:
  assumes "falsy_string (apiKey env) \<or> falsy_string (analysisModel env)"
  shows "analyzeAndSaveHotIssue env w ticketId title description =
           (Inl (if falsy_string (apiKey env) then ApiKeyNotConfigured
                 else AnalysisModelNotConfigured), w)
         \<and> trace (snd (analyzeWithAI env w title description existingTags))
             = trace w @ [CompletionCall]"
  using assms
  by (auto simp: analyzeAndSaveHotIssue_def analyzeWithAI_def Let_def split: option.splits)

theorem C4_missing_configuration_witness:
  "falsy_string (apiKey ((answering None 0)\<lparr>apiKey := None\<rparr>))
   \<and> analyzeAndSaveHotIssue ((answering None 0)\<lparr>apiKey := None\<rparr>) empty_world
        (ascii ''T1'') (ascii ''t'') (ascii ''body'', [])
       = (Inl ApiKeyNotConfigured, empty_world)
   \<and> falsy_string (analysisModel ((answering None 0)\<lparr>analysisModel := Some []\<rparr>))
   \<and> analyzeAndSaveHotIssue ((answering None 0)\<lparr>analysisModel := Some []\<rparr>) empty_world
        (ascii ''T1'') (ascii ''t'') (ascii ''body'', [])
       = (Inl AnalysisModelNotConfigured, empty_world)"
  using C4_missing_configuration [of "(answering None 0)\<lparr>apiKey := None\<rparr>" empty_world
      "ascii ''T1''" "ascii ''t''" "(ascii ''body'', [])" "[]"]
    C4_missing_configuration [of "(answering None 0)\<lparr>analysisModel := Some []\<rparr>" empty_world
      "ascii ''T1''" "ascii ''t''" "(ascii ''body'', [])" "[]"]
  by (simp add: answering_def ascii_def)

subsection \<open>Descriptions longer than the ceiling\<close>

text \<open>
  The claim has the orchestrator persist a tag with the over-long description, and no
  step of the pipeline refuse it. The schema bounds the description at
  \<open>MAX_DESCRIPTION_LENGTH\<close> and is handed to the client: for a chat model that answers a
  description of 32 characters the client throws, the call fails and no tag is written.
\<close>

theorem C5_counterexample:
  "c_description long_answer = Some (ascii ''ingress gateway TLS x509 expired'')
   \<and> length (ascii ''ingress gateway TLS x509 expired'') = 32
   \<and> MAX_DESCRIPTION_LENGTH = 24
   \<and> analyzeAndSaveHotIssue (checked (Some long_answer) 7) empty_world
        (ascii ''T1'') (ascii ''tls'') ([], [])
       = (Inl CompletionFailed,
          \<lparr>tags = [], ticketsTags = [], trace = [StorageRead, CompletionCall]\<rparr>)"
  by (simp add: run_defs checked_def withStructuredOutput_def hotIssueAnalysisSchema_def
      long_answer_def MAX_DESCRIPTION_LENGTH_def)

text \<open>
  C5, amended. With the schema-checking client, an answer of the chat model whose
  description is longer than \<open>MAX_DESCRIPTION_LENGTH\<close> is refused: the call fails after
  the read of the tags and the completion call, and both tables are as they were. The
  ceiling is enforced by refusal, never by shortening: for an answer that conforms the
  description has at most \<open>MAX_DESCRIPTION_LENGTH\<close> code units, the call succeeds, and
  the tag table stays as it is when a tag of the analysis' name is stored, and else gains
  one tag that carries the description as it came (the fallback phrase for an empty one).
\<close>

theorem C5_over_long_refused:
  assumes "configured env"
    and "invoke env = withStructuredOutput hotIssueAnalysisSchema model"
    and "model (fst (getExistingTags w)) (buildUserContent env title description) = Some c"
    and "c_description c = Some ds"
  shows "(length ds > MAX_DESCRIPTION_LENGTH \<longrightarrow>
            analyzeAndSaveHotIssue env w ticketId title description
              = (Inl CompletionFailed, performed CompletionCall (performed StorageRead w)))
         \<and> (hotIssueAnalysisSchema c \<longrightarrow>
              length ds \<le> MAX_DESCRIPTION_LENGTH
              \<and> fst (analyzeAndSaveHotIssue env w ticketId title description) = Inr ()
              \<and> tags (snd (analyzeAndSaveHotIssue env w ticketId title description))
                  = (if \<exists>t \<in> set (tags w). tag_name t = or_string (c_name c) fallback_name
                     then tags w
                     else tags w @ [\<lparr>tag_id = next_id (map tag_id (tags w)),
                                     tag_name = or_string (c_name c) fallback_name,
                                     tag_description = (if ds = [] then fallback_description else ds),
                                     tag_isAiGenerated = True\<rparr>]))"
proof (intro conjI impI)
  assume long: "length ds > MAX_DESCRIPTION_LENGTH"
  then have "\<not> hotIssueAnalysisSchema c"
    using assms(4) by (simp add: hotIssueAnalysisSchema_def)
  then have "answer env w title description = None"
    by (simp add: answer_checked [OF assms(2)] assms(3))
  then show "analyzeAndSaveHotIssue env w ticketId title description
              = (Inl CompletionFailed, performed CompletionCall (performed StorageRead w))"
    by (rule analyzeAndSaveHotIssue_failed [OF assms(1)])
next
  assume ok: "hotIssueAnalysisSchema c"
  then show "length ds \<le> MAX_DESCRIPTION_LENGTH"
    using assms(4) by (simp add: hotIssueAnalysisSchema_def)
  have a: "answer env w title description = Some c"
    using ok by (simp add: answer_checked [OF assms(2)] assms(3))
  show "fst (analyzeAndSaveHotIssue env w ticketId title description) = Inr ()"
    by (simp add: analyzeAndSaveHotIssue_success [OF assms(1) a] Let_def)
  have ds: "or_string (c_description c) fallback_description
              = (if ds = [] then fallback_description else ds)"
    using assms(4) by simp
  show "tags (snd (analyzeAndSaveHotIssue env w ticketId title description))
          = (if \<exists>t \<in> set (tags w). tag_name t = or_string (c_name c) fallback_name
             then tags w
             else tags w @ [\<lparr>tag_id = next_id (map tag_id (tags w)),
                             tag_name = or_string (c_name c) fallback_name,
                             tag_description = (if ds = [] then fallback_description else ds),
                             tag_isAiGenerated = True\<rparr>])"
    by (simp only: analyzeAndSaveHotIssue_tags [OF assms(1) a] findOrCreateTag_tags ds)
qed

theorem C5_over_long_refused_witness:
  "configured (checked (Some long_answer) 7)
   \<and> invoke (checked (Some long_answer) 7)
       = withStructuredOutput hotIssueAnalysisSchema (\<lambda>existingTags userContent. Some long_answer)
   \<and> c_description long_answer = Some (ascii ''ingress gateway TLS x509 expired'')
   \<and> length (ascii ''ingress gateway TLS x509 expired'') > MAX_DESCRIPTION_LENGTH
   \<and> analyzeAndSaveHotIssue (checked (Some long_answer) 7) net_world
        (ascii ''T1'') (ascii ''tls'') ([], [])
       = (Inl CompletionFailed, performed CompletionCall (performed StorageRead net_world))
   \<and> configured (checked (Some edge_answer) 7)
   \<and> invoke (checked (Some edge_answer) 7)
       = withStructuredOutput hotIssueAnalysisSchema (\<lambda>existingTags userContent. Some edge_answer)
   \<and> c_description edge_answer = Some (ascii ''ingress TLS x509 expired'')
   \<and> hotIssueAnalysisSchema edge_answer
   \<and> length (ascii ''ingress TLS x509 expired'') = MAX_DESCRIPTION_LENGTH
   \<and> fst (analyzeAndSaveHotIssue (checked (Some edge_answer) 7) empty_world
        (ascii ''T1'') (ascii ''tls'') ([], [])) = Inr ()
   \<and> tags (snd (analyzeAndSaveHotIssue (checked (Some edge_answer) 7) empty_world
        (ascii ''T1'') (ascii ''tls'') ([], [])))
       = [\<lparr>tag_id = 1, tag_name = ascii ''net'',
           tag_description = ascii ''ingress TLS x509 expired'', tag_isAiGenerated = True\<rparr>]
   \<and> tags (snd (analyzeAndSaveHotIssue (checked (Some edge_answer) 7) net_world
        (ascii ''T1'') (ascii ''tls'') ([], []))) = tags net_world"
proof -
  have a: "configured (checked (Some long_answer) 7)" "configured (checked (Some edge_answer) 7)"
    by (simp_all add: configured_def checked_def answering_def ascii_def)
  have b: "invoke (checked (Some long_answer) 7)
       = withStructuredOutput hotIssueAnalysisSchema (\<lambda>existingTags userContent. Some long_answer)"
    "invoke (checked (Some edge_answer) 7)
       = withStructuredOutput hotIssueAnalysisSchema (\<lambda>existingTags userContent. Some edge_answer)"
    by (simp_all add: checked_def)
  have c: "c_description long_answer = Some (ascii ''ingress gateway TLS x509 expired'')"
    "c_description edge_answer = Some (ascii ''ingress TLS x509 expired'')"
    by (simp_all add: long_answer_def edge_answer_def)
  have d: "length (ascii ''ingress gateway TLS x509 expired'') > MAX_DESCRIPTION_LENGTH"
    "length (ascii ''ingress TLS x509 expired'') = MAX_DESCRIPTION_LENGTH"
    by (simp_all add: ascii_def MAX_DESCRIPTION_LENGTH_def)
  have e: "hotIssueAnalysisSchema edge_answer"
    by (simp add: hotIssueAnalysisSchema_def edge_answer_def ascii_def MAX_DESCRIPTION_LENGTH_def)
  have n: "or_string (c_name edge_answer) fallback_name = ascii ''net''"
    "ascii ''ingress TLS x509 expired'' \<noteq> []"
    by (simp_all add: edge_answer_def ascii_def)
  note long = C5_over_long_refused [OF a(1) b(1) refl c(1), where w = net_world
      and title = "ascii ''tls''" and description = "([], [])" and ticketId = "ascii ''T1''"]
  note new = C5_over_long_refused [OF a(2) b(2) refl c(2), where w = empty_world
      and title = "ascii ''tls''" and description = "([], [])" and ticketId = "ascii ''T1''"]
  note old = C5_over_long_refused [OF a(2) b(2) refl c(2), where w = net_world
      and title = "ascii ''tls''" and description = "([], [])" and ticketId = "ascii ''T1''"]
  have t1: "tags (snd (analyzeAndSaveHotIssue (checked (Some edge_answer) 7) empty_world
        (ascii ''T1'') (ascii ''tls'') ([], [])))
       = [\<lparr>tag_id = 1, tag_name = ascii ''net'',
           tag_description = ascii ''ingress TLS x509 expired'', tag_isAiGenerated = True\<rparr>]"
    using new e n by (simp add: empty_world_def next_id_def)
  have t2: "tags (snd (analyzeAndSaveHotIssue (checked (Some edge_answer) 7) net_world
        (ascii ''T1'') (ascii ''tls'') ([], []))) = tags net_world"
    using old e n by (simp add: net_world_def)
  from long new a b c d e t1 t2 show ?thesis
    by simp
qed

subsection \<open>The user message\<close>

text \<open>
  C6. The user message is the one text block followed by the first six image references
  of the document, in document order; it has \<open>1 + min n 6\<close> blocks for \<open>n\<close> references.
\<close>

theorem C6_user_content:
  "buildUserContent env title description =
     Text ([0x6807, 0x9898, 0x3A, 0x20] @ title @ [0x0A, 0x63CF, 0x8FF0, 0x3A, 0x20]
           @ extractTextWithoutImages env description)
       # map Image_url (take 6 (extractImageUrls env description))
   \<and> length (buildUserContent env title description)
       = 1 + min (length (extractImageUrls env description)) 6"
  by (simp add: buildUserContent_def Let_def buildUserContent_fold)

text \<open>No image: one block. Nine images: the text and the first six.\<close>

theorem C6_user_content_witness:
  "length (buildUserContent (answering None 0) (ascii ''t'') (ascii ''body'', [])) = 1
   \<and> buildUserContent (answering None 0) (ascii ''t'')
        (ascii ''body'', map (\<lambda>i. ascii ''u'' @ [of_nat i]) [1 ..< 10])
       = Text ([0x6807, 0x9898, 0x3A, 0x20] @ ascii ''t'' @ [0x0A, 0x63CF, 0x8FF0, 0x3A, 0x20]
               @ ascii ''body'')
          # map (\<lambda>i. Image_url (ascii ''u'' @ [of_nat i])) [1 ..< 7]"
  using C6_user_content [of "answering None 0" "ascii ''t''" "(ascii ''body'', [])"]
    C6_user_content [of "answering None 0" "ascii ''t''"
      "(ascii ''body'', map (\<lambda>i. ascii ''u'' @ [of_nat i]) [1 ..< 10])"]
  by (simp add: answering_def upt_rec take_map)

subsection \<open>Statistics over a time range\<close>




subsection \<open>The most used tags\<close>

text \<open>
  C8. With distinct tag ids, the answer of \<open>getExistingTags\<close> is the first 50 entries of
  a list that holds, for every stored tag once, its name, its description and the number
  of link rows that reference it, in non-increasing order of that number. So the answer
  is in that order, has \<open>min 50 n\<close> entries for \<open>n\<close> stored tags, exactly 50 when more than
  50 tags are stored, and each entry is a stored tag with its usage count. The storage is
  only read.
\<close>

theorem C8_top_tags:
  assumes "distinct (map tag_id (tags w))"
  shows "(\<exists>ordered.
            mset ordered
              = mset (map (\<lambda>t. \<lparr>et_name = tag_name t, et_description = tag_description t,
                                 et_usageCount =
                                   length (filter (\<lambda>l. tt_tagId l = tag_id t) (ticketsTags w))\<rparr>)
                        (tags w))
            \<and> sorted_wrt (\<ge>) (map et_usageCount ordered)
            \<and> fst (getExistingTags w) = take MAX_EXISTING_TAGS ordered)
         \<and> sorted_wrt (\<ge>) (map et_usageCount (fst (getExistingTags w)))
         \<and> length (fst (getExistingTags w)) = min MAX_EXISTING_TAGS (length (tags w))
         \<and> MAX_EXISTING_TAGS = 50
         \<and> (length (tags w) > 50 \<longrightarrow> length (fst (getExistingTags w)) = 50)
         \<and> (\<forall>e \<in> set (fst (getExistingTags w)). \<exists>t \<in> set (tags w).
               et_name e = tag_name t \<and> et_description e = tag_description t
               \<and> et_usageCount e = length (filter (\<lambda>l. tt_tagId l = tag_id t) (ticketsTags w)))
         \<and> tags (snd (getExistingTags w)) = tags w
         \<and> ticketsTags (snd (getExistingTags w)) = ticketsTags w"
proof -
  have len: "length (fst (getExistingTags w)) = min MAX_EXISTING_TAGS (length (tags w))"
    by (simp add: getExistingTags_eq [OF assms])
  have rows: "\<exists>t \<in> set (tags w).
               et_name e = tag_name t \<and> et_description e = tag_description t
               \<and> et_usageCount e = length (filter (\<lambda>l. tt_tagId l = tag_id t) (ticketsTags w))"
    if "e \<in> set (fst (getExistingTags w))" for e
  proof -
    from that obtain r where
      r: "r \<in> set (take MAX_EXISTING_TAGS
                (orderBy_desc (\<lambda>(tagId, name, description, usageCount). usageCount)
                   (map (\<lambda>t. (tag_id t, tag_name t, tag_description t, usage w t)) (tags w))))"
      and e: "e = (case r of (tagId, name, description, usageCount) \<Rightarrow>
                  \<lparr>et_name = name, et_description = description, et_usageCount = usageCount\<rparr>)"
      unfolding getExistingTags_eq [OF assms] by auto
    from r have "r \<in> set (orderBy_desc (\<lambda>(tagId, name, description, usageCount). usageCount)
                   (map (\<lambda>t. (tag_id t, tag_name t, tag_description t, usage w t)) (tags w)))"
      by (rule in_set_takeD)
    then obtain t where "t \<in> set (tags w)"
      and "r = (tag_id t, tag_name t, tag_description t, usage w t)"
      by auto
    with e show ?thesis
      by (auto simp: usage_def)
  qed
  show ?thesis
    using len rows getExistingTags_sorted [of w] getExistingTags_ordered [OF assms]
    by (simp add: getExistingTags_snd MAX_EXISTING_TAGS_def)
qed

text \<open>
  Of 51 stored tags 50 are answered, first the only tag in use, which is the last row of
  the table; and on the storage of three tags with five links the entries are the tags
  with 3, 2 and 0 links, in this order.
\<close>

theorem C8_top_tags_witness:
  "distinct (map tag_id (tags many_tags_world))
   \<and> length (tags many_tags_world) = 51
   \<and> length (fst (getExistingTags many_tags_world)) = 50
   \<and> hd (fst (getExistingTags many_tags_world))
       = \<lparr>et_name = [51], et_description = [], et_usageCount = 1\<rparr>
   \<and> distinct (map tag_id (tags stats_world))
   \<and> fst (getExistingTags stats_world)
       = [\<lparr>et_name = ascii ''A'', et_description = ascii ''a'', et_usageCount = 3\<rparr>,
          \<lparr>et_name = ascii ''B'', et_description = ascii ''b'', et_usageCount = 2\<rparr>,
          \<lparr>et_name = ascii ''C'', et_description = ascii ''c'', et_usageCount = 0\<rparr>]"
proof -
  have ids: "map tag_id (tags many_tags_world) = [1 ..< 52]"
    by (simp add: many_tags_world_def comp_def)
  then have d: "distinct (map tag_id (tags many_tags_world))"
    by simp
  have l: "length (tags many_tags_world) = 51"
    by (simp add: many_tags_world_def)
  have d': "distinct (map tag_id (tags stats_world))"
    by (simp add: stats_world_def)
  have v: "fst (getExistingTags stats_world)
       = [\<lparr>et_name = ascii ''A'', et_description = ascii ''a'', et_usageCount = 3\<rparr>,
          \<lparr>et_name = ascii ''B'', et_description = ascii ''b'', et_usageCount = 2\<rparr>,
          \<lparr>et_name = ascii ''C'', et_description = ascii ''c'', et_usageCount = 0\<rparr>]"
    by (simp add: query_defs stats_world_def)
  have h: "hd (fst (getExistingTags many_tags_world))
       = \<lparr>et_name = [51], et_description = [], et_usageCount = 1\<rparr>"
    unfolding getExistingTags_eq [OF d]
    by (simp add: many_tags_world_def usage_def upt_rec orderBy_desc_def MAX_EXISTING_TAGS_def)
  from C8_top_tags [OF d] C8_top_tags [OF d'] d l d' v h show ?thesis
    by simp
qed

subsection \<open>Fallbacks of the analysis client\<close>




subsection \<open>Falsy values\<close>

text \<open>
  C10. With the schema-checking client: when the answer has a confidence of exactly
  \<open>0\<close>, the analysis has confidence \<open>0.5\<close>; when it has an empty name or an empty
  description, the analysis has the fallback text; and a call, whatever its outcome,
  leaves the link table as it is or appends one link, whose confidence is not \<open>0\<close>.
\<close>

theorem C10_falsy_values:
  assumes "invoke env = withStructuredOutput hotIssueAnalysisSchema model"
  shows "(\<forall>c. answer env w title description = Some c \<longrightarrow>
            (\<exists>a. fst (analyzeWithAI env (snd (getExistingTags w)) title description
                        (fst (getExistingTags w))) = Inr a
               \<and> (c_confidence c = Some (Finite 0) \<longrightarrow> ar_confidence a = Finite 0.5)
               \<and> (c_name c = Some [] \<longrightarrow> ar_name a = [0x5176, 0x4ED6, 0x95EE, 0x9898])
               \<and> (c_description c = Some [] \<longrightarrow>
                    ar_description a
                      = [0x672A, 0x660E, 0x786E, 0x5206, 0x7C7B, 0x7684, 0x95EE, 0x9898])))
         \<and> (ticketsTags (snd (analyzeAndSaveHotIssue env w ticketId title description))
               = ticketsTags w
             \<or> (\<exists>l. ticketsTags (snd (analyzeAndSaveHotIssue env w ticketId title description))
                       = ticketsTags w @ [l]
                     \<and> tt_confidence l \<noteq> Finite 0))"
proof (intro conjI allI impI)
  fix c assume a: "answer env w title description = Some c"
  then have inv: "invoke env (fst (getExistingTags w)) (buildUserContent env title description)
                    = Some c"
    by (simp add: answer_def)
  show "\<exists>a. fst (analyzeWithAI env (snd (getExistingTags w)) title description
                        (fst (getExistingTags w))) = Inr a
               \<and> (c_confidence c = Some (Finite 0) \<longrightarrow> ar_confidence a = Finite 0.5)
               \<and> (c_name c = Some [] \<longrightarrow> ar_name a = [0x5176, 0x4ED6, 0x95EE, 0x9898])
               \<and> (c_description c = Some [] \<longrightarrow>
                    ar_description a
                      = [0x672A, 0x660E, 0x786E, 0x5206, 0x7C7B, 0x7684, 0x95EE, 0x9898])"
    by (simp add: analyzeWithAI_Some [OF inv] fallback_name_def fallback_description_def)
      (simp add: clamped_cases)
next
  let ?w' = "snd (analyzeAndSaveHotIssue env w ticketId title description)"
  show "ticketsTags ?w' = ticketsTags w
        \<or> (\<exists>l. ticketsTags ?w' = ticketsTags w @ [l] \<and> tt_confidence l \<noteq> Finite 0)"
  proof (cases "configured env")
    case False
    then show ?thesis
      by (auto simp: configured_def analyzeAndSaveHotIssue_def)
  next
    case True
    show ?thesis
    proof (cases "answer env w title description")
      case None
      then have "invoke env (fst (getExistingTags w)) (buildUserContent env title description)
                   = None"
        by (simp add: answer_def)
      then show ?thesis
        using True
        by (simp add: analyzeAndSaveHotIssue_def configured_def split_beta Let_def
            analyzeWithAI_def getExistingTags_snd)
    next
      case (Some c)
      have "clamped (c_confidence c) \<noteq> Finite 0"
        by (rule clamped_conforming [OF answer_conforms [OF assms Some]])
      then show ?thesis
        by (simp add: analyzeAndSaveHotIssue_links [OF True Some])
    qed
  qed
qed

theorem C10_falsy_values_witness:
  "invoke (checked (Some zero_answer) 7)
     = withStructuredOutput hotIssueAnalysisSchema (\<lambda>existingTags userContent. Some zero_answer)
   \<and> answer (checked (Some zero_answer) 7) empty_world (ascii ''t'') ([], []) = Some zero_answer
   \<and> c_confidence zero_answer = Some (Finite 0)
   \<and> (\<exists>a. fst (analyzeWithAI (checked (Some zero_answer) 7) (snd (getExistingTags empty_world))
                 (ascii ''t'') ([], []) (fst (getExistingTags empty_world))) = Inr a
          \<and> ar_confidence a = Finite 0.5)
   \<and> map tt_confidence (ticketsTags (snd (analyzeAndSaveHotIssue (checked (Some zero_answer) 7)
        empty_world (ascii ''T1'') (ascii ''t'') ([], [])))) = [Finite 0.5]
   \<and> invoke (checked (Some empty_name_answer) 7)
     = withStructuredOutput hotIssueAnalysisSchema
         (\<lambda>existingTags userContent. Some empty_name_answer)
   \<and> answer (checked (Some empty_name_answer) 7) empty_world (ascii ''t'') ([], [])
       = Some empty_name_answer
   \<and> c_name empty_name_answer = Some [] \<and> c_description empty_name_answer = Some []
   \<and> (\<exists>a. fst (analyzeWithAI (checked (Some empty_name_answer) 7)
                 (snd (getExistingTags empty_world)) (ascii ''t'') ([], [])
                 (fst (getExistingTags empty_world))) = Inr a
          \<and> ar_name a = [0x5176, 0x4ED6, 0x95EE, 0x9898]
          \<and> ar_description a = [0x672A, 0x660E, 0x786E, 0x5206, 0x7C7B, 0x7684, 0x95EE, 0x9898])"
proof -
  have i: "invoke (checked (Some zero_answer) 7)
     = withStructuredOutput hotIssueAnalysisSchema (\<lambda>existingTags userContent. Some zero_answer)"
    "invoke (checked (Some empty_name_answer) 7)
     = withStructuredOutput hotIssueAnalysisSchema
         (\<lambda>existingTags userContent. Some empty_name_answer)"
    by (simp_all add: checked_def)
  have s: "hotIssueAnalysisSchema zero_answer" "hotIssueAnalysisSchema empty_name_answer"
    by (simp_all add: hotIssueAnalysisSchema_def zero_answer_def empty_name_answer_def ascii_def
        MAX_DESCRIPTION_LENGTH_def)
  have a: "answer (checked (Some zero_answer) 7) empty_world (ascii ''t'') ([], [])
             = Some zero_answer"
    "answer (checked (Some empty_name_answer) 7) empty_world (ascii ''t'') ([], [])
       = Some empty_name_answer"
    using s by (simp_all add: answer_checked [OF i(1)] answer_checked [OF i(2)])
  have c: "c_confidence zero_answer = Some (Finite 0)"
    "c_name empty_name_answer = Some []" "c_description empty_name_answer = Some []"
    by (simp_all add: zero_answer_def empty_name_answer_def)
  have v: "map tt_confidence (ticketsTags (snd (analyzeAndSaveHotIssue (checked (Some zero_answer) 7)
        empty_world (ascii ''T1'') (ascii ''t'') ([], [])))) = [Finite 0.5]"
    by (simp add: run_defs checked_def withStructuredOutput_def hotIssueAnalysisSchema_def
        zero_answer_def MAX_DESCRIPTION_LENGTH_def)
  from C10_falsy_values [OF i(1), of empty_world "ascii ''t''" "([], [])" "ascii ''T1''"]
    C10_falsy_values [OF i(2), of empty_world "ascii ''t''" "([], [])" "ascii ''T1''"]
    i a c v
  show ?thesis
    by auto
qed

subsection \<open>Further properties of the pipeline\<close>

text \<open>
  X1. For a configured call that the service answers, the confidence of the analysis is a
  finite number in \<open>[0,1]\<close>: \<open>0\<close> for a negative raw value, \<open>1\<close> for a raw value above
  \<open>1\<close>, the raw value itself when it is in range and not zero; a link that the call
  inserts carries that confidence.
\<close>

theorem confidence_in_unit_interval:
  assumes "configured env" and "answer env w title description = Some c"
  shows "\<exists>a r. fst (analyzeWithAI env (snd (getExistingTags w)) title description
                      (fst (getExistingTags w))) = Inr a
           \<and> ar_confidence a = Finite r \<and> 0 \<le> r \<and> r \<le> 1
           \<and> (\<forall>x. c_confidence c = Some (Finite x) \<longrightarrow>
                  (x < 0 \<longrightarrow> r = 0) \<and> (1 < x \<longrightarrow> r = 1) \<and> (0 < x \<and> x \<le> 1 \<longrightarrow> r = x))
           \<and> (c_confidence c = Some NegInfinity \<longrightarrow> r = 0)
           \<and> (c_confidence c = Some PosInfinity \<longrightarrow> r = 1)
           \<and> (ticketsTags (snd (analyzeAndSaveHotIssue env w ticketId title description))
                 = ticketsTags w
               \<or> (\<exists>l. ticketsTags (snd (analyzeAndSaveHotIssue env w ticketId title description))
                         = ticketsTags w @ [l]
                       \<and> tt_confidence l = Finite r))"
proof -
  have inv: "invoke env (fst (getExistingTags w)) (buildUserContent env title description) = Some c"
    using assms(2) by (simp add: answer_def)
  obtain r where r: "clamped (c_confidence c) = Finite r" "0 \<le> r" "r \<le> 1"
    using clamped_range by blast
  have cases: "\<forall>x. c_confidence c = Some (Finite x) \<longrightarrow>
                  (x < 0 \<longrightarrow> r = 0) \<and> (1 < x \<longrightarrow> r = 1) \<and> (0 < x \<and> x \<le> 1 \<longrightarrow> r = x)"
    "c_confidence c = Some NegInfinity \<longrightarrow> r = 0"
    "c_confidence c = Some PosInfinity \<longrightarrow> r = 1"
    using r(1) by (auto simp: clamped_cases split: if_splits)
  show ?thesis
    using r cases
    by (simp add: analyzeWithAI_Some [OF inv] analyzeAndSaveHotIssue_links [OF assms])
qed

theorem confidence_in_unit_interval_witness:
  "configured (answering (Some (answer_with 0.42)) 7)
   \<and> answer (answering (Some (answer_with 0.42)) 7) empty_world (ascii ''t'') ([], [])
       = Some (answer_with 0.42)
   \<and> map tt_confidence (ticketsTags (snd (analyzeAndSaveHotIssue
        (answering (Some (answer_with 0.42)) 7) empty_world (ascii ''T1'') (ascii ''t'') ([], []))))
       = [Finite 0.42]
   \<and> clamped (Some (Finite (- 0.3))) = Finite 0
   \<and> clamped (Some (Finite 1.7)) = Finite 1"
proof -
  have a: "configured (answering (Some (answer_with 0.42)) 7)"
    by (simp add: configured_def answering_def ascii_def)
  have b: "answer (answering (Some (answer_with 0.42)) 7) empty_world (ascii ''t'') ([], [])
       = Some (answer_with 0.42)"
    by (simp add: answer_def answering_def)
  have v: "map tt_confidence (ticketsTags (snd (analyzeAndSaveHotIssue
        (answering (Some (answer_with 0.42)) 7) empty_world (ascii ''T1'') (ascii ''t'') ([], []))))
       = [Finite 0.42]"
    by (simp add: run_defs answer_with_def)
  have c: "clamped (Some (Finite (- 0.3))) = Finite 0" "clamped (Some (Finite 1.7)) = Finite 1"
    by (simp_all add: clamped_cases)
  from confidence_in_unit_interval [OF a b, of "ascii ''T1''"] a b v c show ?thesis
    by simp
qed

text \<open>
  X2. Whatever its outcome, a call keeps the ids of the tag table distinct.
\<close>

theorem tag_ids_stay_distinct:
  assumes "distinct (map tag_id (tags w))"
  shows "distinct (map tag_id (tags (snd (analyzeAndSaveHotIssue env w ticketId title description))))"
  using analyzeAndSaveHotIssue_tags_cases [of env w ticketId title description] assms
    next_id_fresh [of "map tag_id (tags w)"]
  by auto


theorem tag_ids_stay_distinct_witness:
  "distinct (map tag_id (tags stats_world))
   \<and> distinct (map tag_id (tags (snd (analyzeAndSaveHotIssue (answering (Some edge_answer) 7)
         stats_world (ascii ''T9'') (ascii ''tls'') ([], [])))))
   \<and> map tag_id (tags (snd (analyzeAndSaveHotIssue (answering (Some edge_answer) 7)
         stats_world (ascii ''T9'') (ascii ''tls'') ([], [])))) = [2, 1, 3, 4]"
proof -
  have d: "distinct (map tag_id (tags stats_world))"
    by (simp add: stats_world_def)
  have a: "configured (answering (Some edge_answer) 7)"
    by (simp add: configured_def answering_def ascii_def)
  have b: "answer (answering (Some edge_answer) 7) stats_world (ascii ''tls'') ([], [])
             = Some edge_answer"
    by (simp add: answer_def answering_def)
  have v: "map tag_id (tags (snd (analyzeAndSaveHotIssue (answering (Some edge_answer) 7)
         stats_world (ascii ''T9'') (ascii ''tls'') ([], [])))) = [2, 1, 3, 4]"
    by (simp add: analyzeAndSaveHotIssue_tags [OF a b] findOrCreateTag_tags)
      (simp add: stats_world_def edge_answer_def ascii_def next_id_def)
  from tag_ids_stay_distinct [OF d, of "answering (Some edge_answer) 7" "ascii ''T9''"
      "ascii ''tls''" "([], [])"] d v
  show ?thesis by simp
qed

text \<open>
  X3. Whatever its outcome, a call keeps the link table free of a second row for any
  pair of ticket and tag.
\<close>

theorem link_pairs_stay_unique:
  assumes "\<forall>t g. length (links_of w t g) \<le> 1"
  shows "\<forall>t g. length (links_of (snd (analyzeAndSaveHotIssue env w ticketId title description)) t g)
           \<le> 1"
proof (intro allI)
  fix t g
  let ?w' = "snd (analyzeAndSaveHotIssue env w ticketId title description)"
  from analyzeAndSaveHotIssue_links_cases [of env w ticketId title description]
  show "length (links_of ?w' t g) \<le> 1"
  proof
    assume "ticketsTags ?w' = ticketsTags w"
    then have "links_of ?w' t g = links_of w t g"
      by (simp add: links_of_def)
    with assms show ?thesis by simp
  next
    assume "\<exists>l. ticketsTags ?w' = ticketsTags w @ [l]
          \<and> tt_ticketId l = ticketId \<and> links_of w ticketId (tt_tagId l) = []"
    then obtain l where l: "ticketsTags ?w' = ticketsTags w @ [l]" "tt_ticketId l = ticketId"
      "links_of w ticketId (tt_tagId l) = []"
      by blast
    show ?thesis
    proof (cases "t = ticketId \<and> g = tt_tagId l")
      case True
      with l show ?thesis by (simp add: links_of_def)
    next
      case False
      with l have "links_of ?w' t g = links_of w t g"
        by (auto simp: links_of_def)
      with assms show ?thesis by simp
    qed
  qed
qed

theorem link_pairs_stay_unique_witness:
  "(\<forall>t g. length (links_of empty_world t g) \<le> 1)
   \<and> (\<forall>t g. length (links_of (snd (analyzeAndSaveHotIssue (answering (Some edge_answer) 7)
         empty_world (ascii ''T1'') (ascii ''tls'') ([], []))) t g) \<le> 1)"
proof -
  have e: "\<forall>t g. length (links_of empty_world t g) \<le> 1"
    by (simp add: links_of_def empty_world_def)
  from link_pairs_stay_unique [OF e, of "answering (Some edge_answer) 7" "ascii ''T1''"
      "ascii ''tls''" "([], [])"] e
  show ?thesis by simp
qed

end
